theory Spec2Isabelle
  imports Main
begin

section \<open>Data model\<close>

text \<open>
  The Go struct \<open>Question\<close> of main.go. A Go slice is either \<open>nil\<close> or a (possibly
  empty) sequence; the two are encoded differently in JSON (\<open>null\<close> against \<open>[]\<close>),
  so a slice is modelled as a \<open>list option\<close> with \<open>None\<close> for \<open>nil\<close>.
\<close>

type_synonym 'a slice = "'a list option"

definition append :: "'a slice \<Rightarrow> 'a \<Rightarrow> 'a slice" where
  "append s x = (case s of None \<Rightarrow> Some [x] | Some xs \<Rightarrow> Some (xs @ [x]))"

definition elems :: "'a slice \<Rightarrow> 'a list" where
  "elems s = (case s of None \<Rightarrow> [] | Some xs \<Rightarrow> xs)"

record Question =
  ID :: int
  Language :: string
  Type :: string
  Task :: string
  Tags :: "string slice"

record QueryConfig =
  MatchAllTags :: bool

text \<open>
  A value bound to a placeholder or held in a result column: the arguments of
  \<open>db.Query\<close> are Go strings and one Go int; a result column may also be NULL.
\<close>

datatype sqlval = SNull | SInt int | SStr string

section \<open>The query builder of GetQuestions\<close>

text \<open>
  The text of the query is assembled exactly as database.go does (first listing, which
  indents the raw string literals with tabs): \<open>nl k\<close> is a line break followed by
  \<open>k\<close> tabs.
\<close>

definition nl :: "nat \<Rightarrow> string" where
  "nl k = CHR 0x0A # replicate k (CHR 0x09)"

definition Repeat :: "string \<Rightarrow> nat \<Rightarrow> string" where
  "Repeat s n = concat (replicate n s)"

fun Join :: "string list \<Rightarrow> string \<Rightarrow> string" where
  "Join [] sep = []"
| "Join [x] sep = x"
| "Join (x # y # xs) sep = x @ sep @ Join (y # xs) sep"

definition select_from :: string where
  "select_from =
     nl 2 @ ''SELECT DISTINCT q.id, q.language, q.type, q.task, GROUP_CONCAT(t.name) as tags'' @
     nl 2 @ ''FROM questions q'' @
     nl 2 @ ''LEFT JOIN question_tags qt ON q.id = qt.question_id'' @
     nl 2 @ ''LEFT JOIN tags t ON qt.tag_id = t.id''"

text \<open>The format string of the ALL-mode join, before and after its one \<open>%s\<close>.\<close>

definition matching_open :: string where
  "matching_open =
     nl 4 @ ''INNER JOIN ('' @
     nl 5 @ ''SELECT qt.question_id'' @
     nl 5 @ ''FROM question_tags qt'' @
     nl 5 @ ''INNER JOIN tags t ON qt.tag_id = t.id'' @
     nl 5 @ ''WHERE t.name IN (?''"

definition matching_close :: string where
  "matching_close =
     '')'' @
     nl 5 @ ''GROUP BY qt.question_id'' @
     nl 5 @ ''HAVING COUNT(DISTINCT t.name) = ?'' @
     nl 4 @ '') matching_tags ON q.id = matching_tags.question_id''"

definition matchAll :: "QueryConfig option \<Rightarrow> bool" where
  "matchAll config = (case config of None \<Rightarrow> False | Some c \<Rightarrow> MatchAllTags c)"

definition build_query ::
  "string \<Rightarrow> string \<Rightarrow> string list \<Rightarrow> QueryConfig option \<Rightarrow> string \<times> sqlval list" where
  "build_query language qType tags config =
     (let baseQuery = select_from;
          whereConditions = [];
          args = [];
          (whereConditions, args) =
            (if language \<noteq> ''''
             then (whereConditions @ [''q.language = ?''], args @ [SStr language])
             else (whereConditions, args));
          (whereConditions, args) =
            (if qType \<noteq> ''''
             then (whereConditions @ [''q.type = ?''], args @ [SStr qType])
             else (whereConditions, args));
          (baseQuery, whereConditions, args) =
            (if length tags > 0
             then (if matchAll config
                   then (baseQuery @ matching_open @ Repeat '',?'' (length tags - 1) @ matching_close,
                         whereConditions,
                         (args @ map SStr tags) @ [SInt (int (length tags))])
                   else (baseQuery,
                         whereConditions @ [''t.name IN (?'' @ Repeat '',?'' (length tags - 1) @ '')''],
                         args @ map SStr tags))
             else (baseQuery, whereConditions, args));
          baseQuery =
            (if length whereConditions > 0
             then baseQuery @ '' WHERE '' @ Join whereConditions '' AND ''
             else baseQuery);
          baseQuery = baseQuery @ '' GROUP BY q.id''
      in (baseQuery, args))"

section \<open>Storage\<close>

text \<open>
  The three tables of init.sql. \<open>questions(id, language, type, task)\<close>,
  \<open>tags(id, name)\<close> and \<open>question_tags(question_id, tag_id)\<close> are lists of rows;
  the two AUTO\_INCREMENT counters give the next generated id. A table is kept as a list
  because the order in which the engine visits rows shows in \<open>GROUP_CONCAT\<close>.
\<close>

type_synonym question_row = "int \<times> string \<times> string \<times> string"

type_synonym tag_row = "int \<times> string"

type_synonym question_tag_row = "int \<times> int"

record storage =
  questions_tbl :: "question_row list"
  tags_tbl :: "tag_row list"
  question_tags_tbl :: "question_tag_row list"
  questions_auto :: int
  tags_auto :: int

section \<open>The database engine on the statements of GetQuestions\<close>

text \<open>
  \<open>db.Query\<close> hands the engine a text and a list of arguments, and the engine binds
  the arguments to the placeholders in the order in which the placeholders occur in the
  text. The model of the engine therefore reads the text: it recognises the statements
  that GetQuestions can produce and rejects every other text.

  Three things are settings of the engine and parameters of the model. \<open>collate\<close>
  is the collation of the string columns, given by its sort key: two strings are equal
  for the engine when their keys are equal (init.sql declares utf8mb4\_unicode\_ci, which
  ignores case). \<open>coerce_eq\<close> is what a comparison of a string with a number yields.
  \<open>group_concat_max_len\<close> is the length at which the result of \<open>GROUP_CONCAT\<close>
  is cut (1024 bytes unless the server is configured otherwise). A table is read in the
  order of its rows in \<open>storage\<close>, which is the order of its primary key.
\<close>

record engine =
  collate :: "string \<Rightarrow> string"
  coerce_eq :: "sqlval \<Rightarrow> sqlval \<Rightarrow> bool"
  group_concat_max_len :: nat

fun strip_prefix :: "string \<Rightarrow> string \<Rightarrow> string option" where
  "strip_prefix [] s = Some s"
| "strip_prefix (p # ps) [] = None"
| "strip_prefix (p # ps) (c # cs) = (if p = c then strip_prefix ps cs else None)"

text \<open>The placeholders \<open>,?\<close> that follow the first \<open>?\<close> of an IN list.\<close>

fun more_placeholders :: "string \<Rightarrow> nat \<times> string" where
  "more_placeholders (a # b # s) =
     (if a = CHR '','' \<and> b = CHR ''?''
      then (let (n, r) = more_placeholders s in (Suc n, r))
      else (0, a # b # s))"
| "more_placeholders s = (0, s)"

datatype cond = LanguageEq | TypeEq | TagNameIn nat

record statement =
  matching_tags :: "nat option"
  conditions :: "cond list"

definition parse_cond :: "string \<Rightarrow> (cond \<times> string) option" where
  "parse_cond s =
     (case strip_prefix ''q.language = ?'' s of
        Some r \<Rightarrow> Some (LanguageEq, r)
      | None \<Rightarrow>
         (case strip_prefix ''q.type = ?'' s of
            Some r \<Rightarrow> Some (TypeEq, r)
          | None \<Rightarrow>
             (case strip_prefix ''t.name IN (?'' s of
                None \<Rightarrow> None
              | Some r \<Rightarrow>
                 (let (n, r') = more_placeholders r
                  in (case strip_prefix '')'' r' of
                        None \<Rightarrow> None
                      | Some r'' \<Rightarrow> Some (TagNameIn (Suc n), r''))))))"

lemma strip_prefix_Some: "strip_prefix p s = Some r \<Longrightarrow> s = p @ r"
  by (induction p s rule: strip_prefix.induct) (auto split: if_splits)

lemma more_placeholders_length: "length (snd (more_placeholders s)) \<le> length s"
  by (induction s rule: more_placeholders.induct) (auto split: prod.splits)

lemma parse_cond_shorter: "parse_cond s = Some (c, r) \<Longrightarrow> length r < length s"
proof -
  assume a: "parse_cond s = Some (c, r)"
  have m: "\<And>t n u. more_placeholders t = (n, u) \<Longrightarrow> length u \<le> length t"
    using more_placeholders_length by (metis snd_conv)
  from a show ?thesis
    unfolding parse_cond_def
    by (auto split: option.splits prod.splits dest!: strip_prefix_Some m)
qed

function parse_conds :: "string \<Rightarrow> (cond list \<times> string) option" where
  "parse_conds s =
     (case parse_cond s of
        None \<Rightarrow> None
      | Some (c, r) \<Rightarrow>
         (case strip_prefix '' AND '' r of
            None \<Rightarrow> Some ([c], r)
          | Some r' \<Rightarrow>
             (case parse_conds r' of
                None \<Rightarrow> None
              | Some (cs, r'') \<Rightarrow> Some (c # cs, r''))))"
  by pat_completeness auto

termination
proof (relation "measure length")
  show "wf (measure length)" by simp
next
  fix s x2 c r r'
  assume "parse_cond s = Some x2" "(c, r) = x2" "strip_prefix '' AND '' r = Some r'"
  then have "length r < length s" "r = '' AND '' @ r'"
    by (auto dest: parse_cond_shorter strip_prefix_Some)
  then show "(r', s) \<in> measure length" by simp
qed

definition parse_select :: "string \<Rightarrow> statement option" where
  "parse_select s =
     (case strip_prefix select_from s of
        None \<Rightarrow> None
      | Some r \<Rightarrow>
         (let (mt, r1) =
                (case strip_prefix matching_open r of
                   None \<Rightarrow> (None, Some r)
                 | Some r' \<Rightarrow>
                    (let (n, r'') = more_placeholders r'
                     in (Some (Suc n), strip_prefix matching_close r'')))
          in (case r1 of
                None \<Rightarrow> None
              | Some r2 \<Rightarrow>
                 (case strip_prefix '' WHERE '' r2 of
                    None \<Rightarrow>
                      (if r2 = '' GROUP BY q.id''
                       then Some \<lparr>matching_tags = mt, conditions = []\<rparr>
                       else None)
                  | Some r3 \<Rightarrow>
                     (case parse_conds r3 of
                        None \<Rightarrow> None
                      | Some (cs, r4) \<Rightarrow>
                         (if r4 = '' GROUP BY q.id''
                          then Some \<lparr>matching_tags = mt, conditions = cs\<rparr>
                          else None))))))"

fun cond_placeholders :: "cond \<Rightarrow> nat" where
  "cond_placeholders LanguageEq = 1"
| "cond_placeholders TypeEq = 1"
| "cond_placeholders (TagNameIn n) = n"

definition placeholders :: "statement \<Rightarrow> nat" where
  "placeholders st =
     (case matching_tags st of None \<Rightarrow> 0 | Some n \<Rightarrow> n + 1) +
     sum_list (map cond_placeholders (conditions st))"

text \<open>
  Comparison with \<open>=\<close>. A comparison with NULL is never true; two numbers are
  compared by value and two strings by their collation keys; a string against a number
  is converted by the engine.
\<close>

fun sql_eq :: "engine \<Rightarrow> sqlval \<Rightarrow> sqlval \<Rightarrow> bool" where
  "sql_eq eng SNull b = False"
| "sql_eq eng a SNull = False"
| "sql_eq eng (SInt a) (SInt b) = (a = b)"
| "sql_eq eng (SStr a) (SStr b) = (collate eng a = collate eng b)"
| "sql_eq eng a b = coerce_eq eng a b"

definition sql_in :: "engine \<Rightarrow> sqlval \<Rightarrow> sqlval list \<Rightarrow> bool" where
  "sql_in eng v vs = list_ex (sql_eq eng v) vs"

text \<open>
  \<open>FROM questions q LEFT JOIN question_tags qt ON q.id = qt.question_id
  LEFT JOIN tags t ON qt.tag_id = t.id\<close>: a row of \<open>q\<close> with each of its rows of
  \<open>qt\<close> and each row of \<open>t\<close> that one names, or with NULLs where there is none.
\<close>

type_synonym joined_row = "question_row \<times> question_tag_row option \<times> tag_row option"

definition left_join :: "'a list \<Rightarrow> ('a \<Rightarrow> 'b list) \<Rightarrow> ('a \<times> 'b option) list" where
  "left_join xs f =
     concat (map (\<lambda>x. if f x = [] then [(x, None)] else map (\<lambda>z. (x, Some z)) (f x)) xs)"

definition from_rows :: "storage \<Rightarrow> joined_row list" where
  "from_rows db =
     map (\<lambda>((q, qt), t). (q, qt, t))
       (left_join
          (left_join (questions_tbl db) (\<lambda>q. filter (\<lambda>qt. fst q = fst qt) (question_tags_tbl db)))
          (\<lambda>(q, qt). case qt of
                        None \<Rightarrow> []
                      | Some l \<Rightarrow> filter (\<lambda>t. snd l = fst t) (tags_tbl db)))"

definition q_id :: "joined_row \<Rightarrow> int" where
  "q_id r = fst (fst r)"

definition q_language :: "joined_row \<Rightarrow> string" where
  "q_language r = fst (snd (fst r))"

definition q_type :: "joined_row \<Rightarrow> string" where
  "q_type r = fst (snd (snd (fst r)))"

definition q_task :: "joined_row \<Rightarrow> string" where
  "q_task r = snd (snd (snd (fst r)))"

definition t_name :: "joined_row \<Rightarrow> sqlval" where
  "t_name r = (case snd (snd r) of None \<Rightarrow> SNull | Some t \<Rightarrow> SStr (snd t))"

text \<open>
  The subquery of the ALL mode:
  \<open>SELECT qt.question_id FROM question_tags qt INNER JOIN tags t ON qt.tag_id = t.id
  WHERE t.name IN (names) GROUP BY qt.question_id HAVING COUNT(DISTINCT t.name) = cnt\<close>.
  Names are distinct when their collation keys are.
\<close>

definition matching_ids ::
  "engine \<Rightarrow> storage \<Rightarrow> sqlval list \<Rightarrow> sqlval \<Rightarrow> int list" where
  "matching_ids eng db names cnt =
     (let rows = concat (map (\<lambda>qt. map (\<lambda>t. (qt, t)) (filter (\<lambda>t. snd qt = fst t) (tags_tbl db)))
                           (question_tags_tbl db));
          rows = filter (\<lambda>(qt, t). sql_in eng (SStr (snd t)) names) rows;
          ids = remdups (map (\<lambda>(qt, t). fst qt) rows)
      in filter
           (\<lambda>i. sql_eq eng
                   (SInt (int (length (remdups (map (\<lambda>(qt, t). collate eng (snd t))
                                                  (filter (\<lambda>(qt, t). fst qt = i) rows))))))
                   cnt)
           ids)"

text \<open>The WHERE clause: the conditions take their arguments in the order of the text.\<close>

fun where_holds ::
  "engine \<Rightarrow> cond list \<Rightarrow> sqlval list \<Rightarrow> joined_row \<Rightarrow> bool" where
  "where_holds eng [] args r = True"
| "where_holds eng (LanguageEq # cs) (a # args) r =
     (sql_eq eng (SStr (q_language r)) a \<and> where_holds eng cs args r)"
| "where_holds eng (TypeEq # cs) (a # args) r =
     (sql_eq eng (SStr (q_type r)) a \<and> where_holds eng cs args r)"
| "where_holds eng (TagNameIn n # cs) args r =
     (sql_in eng (t_name r) (take n args) \<and> where_holds eng cs (drop n args) r)"
| "where_holds eng (c # cs) [] r = False"

text \<open>
  \<open>GROUP BY q.id\<close>: one group for each id, in the order in which the ids first occur.
\<close>

function group_by_id :: "joined_row list \<Rightarrow> joined_row list list" where
  "group_by_id [] = []"
| "group_by_id (r # rs) =
     (r # filter (\<lambda>x. q_id x = q_id r) rs) # group_by_id (filter (\<lambda>x. q_id x \<noteq> q_id r) rs)"
  by pat_completeness auto

termination
  by (relation "measure length") (auto simp: less_Suc_eq_le)

text \<open>
  \<open>GROUP_CONCAT(t.name)\<close>: the names of the group that are not NULL, separated by
  commas and cut at \<open>group_concat_max_len\<close>; NULL when there is none.
\<close>

definition group_names :: "joined_row list \<Rightarrow> string list" where
  "group_names g = concat (map (\<lambda>r. case snd (snd r) of None \<Rightarrow> [] | Some t \<Rightarrow> [snd t]) g)"

definition group_concat :: "engine \<Rightarrow> joined_row list \<Rightarrow> sqlval" where
  "group_concat eng g =
     (case group_names g of
        [] \<Rightarrow> SNull
      | n # ns \<Rightarrow> SStr (take (group_concat_max_len eng) (Join (n # ns) '','')))"

fun select_row :: "engine \<Rightarrow> joined_row list \<Rightarrow> sqlval list list" where
  "select_row eng [] = []"
| "select_row eng (r # rs) =
     [[SInt (q_id r), SStr (q_language r), SStr (q_type r), SStr (q_task r),
       group_concat eng (r # rs)]]"

text \<open>
  The rows that reach \<open>GROUP BY\<close>: the joined rows, joined again with the ids of the
  subquery when the statement has one (the subquery takes the first arguments, as it
  comes first in the text), and filtered by the WHERE clause.
\<close>

definition where_rows ::
  "engine \<Rightarrow> storage \<Rightarrow> statement \<Rightarrow> sqlval list \<Rightarrow> joined_row list" where
  "where_rows eng db st args =
     (let rows = from_rows db;
          (rows, args) =
            (case matching_tags st of
               None \<Rightarrow> (rows, args)
             | Some n \<Rightarrow>
                (case drop n args of
                   [] \<Rightarrow> ([], [])
                 | cnt # rest \<Rightarrow>
                    (concat (map (\<lambda>r. map (\<lambda>i. r)
                                        (filter (\<lambda>i. q_id r = i)
                                           (matching_ids eng db (take n args) cnt))) rows),
                     rest)))
      in filter (where_holds eng (conditions st) args) rows)"

text \<open>\<open>SELECT DISTINCT ... GROUP BY q.id\<close>: one row for each group, without repetitions.\<close>

definition run_select ::
  "engine \<Rightarrow> storage \<Rightarrow> statement \<Rightarrow> sqlval list \<Rightarrow> sqlval list list" where
  "run_select eng db st args =
     remdups (concat (map (select_row eng) (group_by_id (where_rows eng db st args))))"

section \<open>The driver: Query, Next, Scan\<close>

text \<open>
  What lies outside the program: the engine with its settings; \<open>db.Query\<close> may fail
  (\<open>query_fault\<close>), and the connection may break while the rows are read, after
  \<open>n\<close> of them (\<open>iter_fault = Some (n, e)\<close>).
\<close>

record env =
  settings :: engine
  query_fault :: "string option"
  iter_fault :: "(nat \<times> string) option"

text \<open>
  The rows of \<open>*sql.Rows\<close> still to come. \<open>rows.Next()\<close> is true at \<open>Row\<close> and
  false both at \<open>Done\<close> and at \<open>Broken\<close>; only \<open>rows.Err()\<close> tells the two apart.
\<close>

datatype cursor = Row "sqlval list" cursor | Done | Broken string

definition deliver :: "sqlval list list \<Rightarrow> (nat \<times> string) option \<Rightarrow> cursor" where
  "deliver rows f =
     (case f of
        None \<Rightarrow> foldr Row rows Done
      | Some (n, e) \<Rightarrow> foldr Row (take n rows) (Broken e))"

definition Query :: "env \<Rightarrow> storage \<Rightarrow> string \<Rightarrow> sqlval list \<Rightarrow> string + cursor" where
  "Query e db text args =
     (case query_fault e of
        Some err \<Rightarrow> Inl err
      | None \<Rightarrow>
         (case parse_select text of
            None \<Rightarrow> Inl ''You have an error in your SQL syntax''
          | Some st \<Rightarrow>
             (if length args \<noteq> placeholders st
              then Inl ''sql: wrong number of arguments''
              else Inr (deliver (run_select (settings e) db st args) (iter_fault e)))))"

text \<open>
  \<open>rows.Scan(&q.ID, &q.Language, &q.Type, &q.Task, &tags)\<close> with \<open>tags\<close> a
  \<open>sql.NullString\<close>: five columns, a number, three strings, and a string or NULL.
  The conversions that the driver offers between numbers and strings are not modelled:
  a column of another type is a failed Scan.
\<close>

fun Scan :: "sqlval list \<Rightarrow> string + (int \<times> string \<times> string \<times> string \<times> string option)" where
  "Scan [SInt i, SStr l, SStr ty, SStr ta, SNull] = Inr (i, l, ty, ta, None)"
| "Scan [SInt i, SStr l, SStr ty, SStr ta, SStr tg] = Inr (i, l, ty, ta, Some tg)"
| "Scan r = Inl ''sql: Scan error''"

text \<open>\<open>strings.Split(s, ",")\<close>: never empty; the empty string gives one empty piece.\<close>

fun Split :: "string \<Rightarrow> char \<Rightarrow> string list" where
  "Split [] sep = [[]]"
| "Split (c # cs) sep =
     (if c = sep then [] # Split cs sep
      else (case Split cs sep of [] \<Rightarrow> [[c]] | w # ws \<Rightarrow> (c # w) # ws))"

datatype error =
    FailedToFetchQuestions string
  | FailedToParseQuestion string
  | FailedToBeginTransaction string
  | FailedToInsertQuestion string
  | FailedToGetLastInsertID string
  | FailedToInsertTag string
  | FailedToGetTagID string
  | FailedToQueryTag string
  | FailedToInsertQuestionTag string
  | CommitError string

section \<open>GetQuestions\<close>

text \<open>
  The loop \<open>for rows.Next() { ... }\<close> with the slice \<open>questions\<close> built so far.
  After the loop the function returns \<open>questions, nil\<close>: \<open>rows.Err()\<close> is never
  asked, so \<open>Done\<close> and \<open>Broken\<close> end the loop alike.
\<close>

fun scan_rows :: "cursor \<Rightarrow> Question slice \<Rightarrow> error + Question slice" where
  "scan_rows Done questions = Inr questions"
| "scan_rows (Broken e) questions = Inr questions"
| "scan_rows (Row r rest) questions =
     (case Scan r of
        Inl err \<Rightarrow> Inl (FailedToParseQuestion err)
      | Inr (i, l, ty, ta, tags) \<Rightarrow>
         (let q = \<lparr>ID = i, Language = l, Type = ty, Task = ta, Tags = None\<rparr>;
              q = (case tags of
                     Some s \<Rightarrow> q\<lparr>Tags := Some (Split s (CHR '',''))\<rparr>
                   | None \<Rightarrow> q\<lparr>Tags := Some []\<rparr>)
          in scan_rows rest (append questions q)))"

definition GetQuestions ::
  "env \<Rightarrow> storage \<Rightarrow> string \<Rightarrow> string \<Rightarrow> string list \<Rightarrow> QueryConfig option
     \<Rightarrow> error + Question slice" where
  "GetQuestions e db language qType tags config =
     (let (baseQuery, args) = build_query language qType tags config
      in (case Query e db baseQuery args of
            Inl err \<Rightarrow> Inl (FailedToFetchQuestions err)
          | Inr rows \<Rightarrow> scan_rows rows None))"

section \<open>AddQuestion\<close>

text \<open>
  The calls that AddQuestion makes on the driver, and how each one ended. A lookup that
  finds no row ends with \<open>sql.ErrNoRows\<close>, which the program handles; every other
  error is a failure. The calls are recorded in the order in which they are made.
\<close>

datatype call =
    CBegin
  | CInsertQuestion
  | CQuestionID
  | CSelectTag string
  | CInsertTag string
  | CTagID
  | CInsertQuestionTag int int
  | CCommit

datatype outcome = Ok | NoRows | Failed string

text \<open>
  A statement can fail for a reason that the tables do not show (a lost connection, a
  value that a column does not accept): \<open>fl k = Some e\<close> makes the call number
  \<open>k\<close> of the transaction fail with \<open>e\<close>.
\<close>

type_synonym faults = "nat \<Rightarrow> string option"

text \<open>
  A transaction: the tables as they were at \<open>Begin\<close>, the tables as the statements
  of the transaction see them, and the calls made so far.
\<close>

record tx =
  snapshot :: storage
  work :: storage
  calls :: "(call \<times> outcome) list"

definition logged :: "tx \<Rightarrow> call \<Rightarrow> outcome \<Rightarrow> tx" where
  "logged t c oc = t\<lparr>calls := calls t @ [(c, oc)]\<rparr>"

definition Begin :: "faults \<Rightarrow> storage \<Rightarrow> (string \<times> (call \<times> outcome) list) + tx" where
  "Begin fl db =
     (case fl 0 of
        Some e \<Rightarrow> Inl (e, [(CBegin, Failed e)])
      | None \<Rightarrow> Inr \<lparr>snapshot = db, work = db, calls = [(CBegin, Ok)]\<rparr>)"

text \<open>
  \<open>tx.Rollback()\<close> puts the tables back; the AUTO\_INCREMENT counters are not part
  of the transaction and keep their values. Its own result is ignored by the program.
\<close>

definition Rollback :: "tx \<Rightarrow> tx" where
  "Rollback t =
     t\<lparr>work := (snapshot t)\<lparr>questions_auto := questions_auto (work t),
                              tags_auto := tags_auto (work t)\<rparr>\<rparr>"

text \<open>
  \<open>tx.Commit()\<close> makes the tables of the transaction the stored ones, or fails and
  leaves the stored tables as they were.
\<close>

definition Commit :: "faults \<Rightarrow> tx \<Rightarrow> error option \<times> tx" where
  "Commit fl t =
     (case fl (length (calls t)) of
        Some e \<Rightarrow> (Some (CommitError e), Rollback (logged t CCommit (Failed e)))
      | None \<Rightarrow> (None, logged t CCommit Ok))"

text \<open>
  A table with the primary key \<open>id\<close> is kept in the order of its ids: a new row goes
  before the first row with a greater id.
\<close>

fun insert_by_id :: "int \<times> 'a \<Rightarrow> (int \<times> 'a) list \<Rightarrow> (int \<times> 'a) list" where
  "insert_by_id x [] = [x]"
| "insert_by_id x (y # ys) = (if fst x < fst y then x # y # ys else y # insert_by_id x ys)"

text \<open>
  \<open>INSERT INTO questions (language, type, task) VALUES (?, ?, ?)\<close>: the id is the
  AUTO\_INCREMENT counter; \<open>id\<close> is the primary key.
\<close>

definition Exec_insert_question ::
  "faults \<Rightarrow> tx \<Rightarrow> string \<Rightarrow> string \<Rightarrow> string \<Rightarrow> (string + int) \<times> tx" where
  "Exec_insert_question fl t language qType task =
     (case fl (length (calls t)) of
        Some e \<Rightarrow> (Inl e, logged t CInsertQuestion (Failed e))
      | None \<Rightarrow>
         (let w = work t; i = questions_auto w
          in if i \<in> set (map fst (questions_tbl w))
             then (Inl ''Duplicate entry for key PRIMARY'',
                   logged t CInsertQuestion (Failed ''Duplicate entry for key PRIMARY''))
             else (Inr i,
                   logged (t\<lparr>work := w\<lparr>questions_tbl :=
                                           insert_by_id (i, language, qType, task) (questions_tbl w),
                                         questions_auto := i + 1\<rparr>\<rparr>)
                     CInsertQuestion Ok)))"

text \<open>\<open>result.LastInsertId()\<close> on the result of an insert.\<close>

definition LastInsertId :: "faults \<Rightarrow> call \<Rightarrow> tx \<Rightarrow> int \<Rightarrow> (string + int) \<times> tx" where
  "LastInsertId fl c t i =
     (case fl (length (calls t)) of
        Some e \<Rightarrow> (Inl e, logged t c (Failed e))
      | None \<Rightarrow> (Inr i, logged t c Ok))"

text \<open>\<open>tx.QueryRow("SELECT id FROM tags WHERE name = ?", tag).Scan(&tagID)\<close>.\<close>

datatype 'a row_result = Found 'a | ErrNoRows | OtherErr string

definition QueryRow_tag :: "engine \<Rightarrow> faults \<Rightarrow> tx \<Rightarrow> string \<Rightarrow> int row_result \<times> tx" where
  "QueryRow_tag eng fl t tag =
     (case fl (length (calls t)) of
        Some e \<Rightarrow> (OtherErr e, logged t (CSelectTag tag) (Failed e))
      | None \<Rightarrow>
         (case filter (\<lambda>r. collate eng (snd r) = collate eng tag) (tags_tbl (work t)) of
            [] \<Rightarrow> (ErrNoRows, logged t (CSelectTag tag) NoRows)
          | r # rs \<Rightarrow> (Found (fst r), logged t (CSelectTag tag) Ok)))"

text \<open>
  \<open>INSERT INTO tags (name) VALUES (?)\<close>: \<open>id\<close> is the primary key and \<open>name\<close>
  is UNIQUE, which the engine judges by the collation.
\<close>

definition Exec_insert_tag :: "engine \<Rightarrow> faults \<Rightarrow> tx \<Rightarrow> string \<Rightarrow> (string + int) \<times> tx" where
  "Exec_insert_tag eng fl t tag =
     (case fl (length (calls t)) of
        Some e \<Rightarrow> (Inl e, logged t (CInsertTag tag) (Failed e))
      | None \<Rightarrow>
         (let w = work t; i = tags_auto w
          in if i \<in> set (map fst (tags_tbl w)) \<or>
                collate eng tag \<in> set (map (\<lambda>r. collate eng (snd r)) (tags_tbl w))
             then (Inl ''Duplicate entry'', logged t (CInsertTag tag) (Failed ''Duplicate entry''))
             else (Inr i,
                   logged (t\<lparr>work := w\<lparr>tags_tbl := insert_by_id (i, tag) (tags_tbl w),
                                         tags_auto := i + 1\<rparr>\<rparr>)
                     (CInsertTag tag) Ok)))"

text \<open>
  \<open>INSERT INTO question_tags (question_id, tag_id) VALUES (?, ?)\<close>: the pair is the
  primary key, and each half is a foreign key. The table is kept in the order of its
  primary key, so the new row goes before the first row with a greater pair.
\<close>

fun insert_link :: "question_tag_row \<Rightarrow> question_tag_row list \<Rightarrow> question_tag_row list" where
  "insert_link x [] = [x]"
| "insert_link x (y # ys) =
     (if fst x < fst y \<or> (fst x = fst y \<and> snd x < snd y)
      then x # y # ys
      else y # insert_link x ys)"

definition Exec_insert_question_tag :: "faults \<Rightarrow> tx \<Rightarrow> int \<Rightarrow> int \<Rightarrow> string option \<times> tx" where
  "Exec_insert_question_tag fl t questionID tagID =
     (case fl (length (calls t)) of
        Some e \<Rightarrow> (Some e, logged t (CInsertQuestionTag questionID tagID) (Failed e))
      | None \<Rightarrow>
         (let w = work t
          in if (questionID, tagID) \<in> set (question_tags_tbl w)
             then (Some ''Duplicate entry for key PRIMARY'',
                   logged t (CInsertQuestionTag questionID tagID)
                     (Failed ''Duplicate entry for key PRIMARY''))
             else if questionID \<notin> set (map fst (questions_tbl w)) \<or> tagID \<notin> set (map fst (tags_tbl w))
             then (Some ''a foreign key constraint fails'',
                   logged t (CInsertQuestionTag questionID tagID)
                     (Failed ''a foreign key constraint fails''))
             else (None,
                   logged (t\<lparr>work := w\<lparr>question_tags_tbl :=
                                           insert_link (questionID, tagID) (question_tags_tbl w)\<rparr>\<rparr>)
                     (CInsertQuestionTag questionID tagID) Ok)))"

text \<open>The body of the loop over \<open>q.Tags\<close>, for one tag.\<close>

definition add_tag :: "engine \<Rightarrow> faults \<Rightarrow> int \<Rightarrow> tx \<Rightarrow> string \<Rightarrow> error option \<times> tx" where
  "add_tag eng fl questionID t tag =
     (let link = (\<lambda>tagID t.
            (case Exec_insert_question_tag fl t questionID tagID of
               (Some e, t) \<Rightarrow> (Some (FailedToInsertQuestionTag e), Rollback t)
             | (None, t) \<Rightarrow> (None, t)))
      in (case QueryRow_tag eng fl t tag of
            (ErrNoRows, t) \<Rightarrow>
              (case Exec_insert_tag eng fl t tag of
                 (Inl e, t) \<Rightarrow> (Some (FailedToInsertTag e), Rollback t)
               | (Inr result, t) \<Rightarrow>
                  (case LastInsertId fl CTagID t result of
                     (Inl e, t) \<Rightarrow> (Some (FailedToGetTagID e), Rollback t)
                   | (Inr tagID, t) \<Rightarrow> link tagID t))
          | (OtherErr e, t) \<Rightarrow> (Some (FailedToQueryTag e), Rollback t)
          | (Found tagID, t) \<Rightarrow> link tagID t))"

fun add_tags :: "engine \<Rightarrow> faults \<Rightarrow> int \<Rightarrow> tx \<Rightarrow> string list \<Rightarrow> error option \<times> tx" where
  "add_tags eng fl questionID t [] = (None, t)"
| "add_tags eng fl questionID t (tag # rest) =
     (case add_tag eng fl questionID t tag of
        (Some e, t) \<Rightarrow> (Some e, t)
      | (None, t) \<Rightarrow> add_tags eng fl questionID t rest)"

text \<open>
  AddQuestion returns an error or nil; the model also returns the stored tables
  afterwards and the calls that were made. Of the settings of the engine it meets the
  collation only.
\<close>

definition AddQuestion ::
  "engine \<Rightarrow> faults \<Rightarrow> storage \<Rightarrow> Question
     \<Rightarrow> error option \<times> storage \<times> (call \<times> outcome) list" where
  "AddQuestion eng fl db q =
     (case Begin fl db of
        Inl (e, cs) \<Rightarrow> (Some (FailedToBeginTransaction e), db, cs)
      | Inr t \<Rightarrow>
         (let (err, t) =
                (case Exec_insert_question fl t (Language q) (Type q) (Task q) of
                   (Inl e, t) \<Rightarrow> (Some (FailedToInsertQuestion e), Rollback t)
                 | (Inr result, t) \<Rightarrow>
                    (case LastInsertId fl CQuestionID t result of
                       (Inl e, t) \<Rightarrow> (Some (FailedToGetLastInsertID e), Rollback t)
                     | (Inr questionID, t) \<Rightarrow>
                        (case add_tags eng fl questionID t (elems (Tags q)) of
                           (Some e, t) \<Rightarrow> (Some e, t)
                         | (None, t) \<Rightarrow> Commit fl t)))
          in (err, work t, calls t)))"

section \<open>Notions used in the statements and proofs\<close>

text \<open>
  The names of the tags linked to the question with id \<open>i\<close>: the rows of
  \<open>question_tags\<close> for \<open>i\<close>, each with the rows of \<open>tags\<close> it names.
\<close>

definition tag_names :: "storage \<Rightarrow> int \<Rightarrow> string list" where
  "tag_names db i =
     concat (map (\<lambda>qt. map snd (filter (\<lambda>t. snd qt = fst t) (tags_tbl db)))
               (filter (\<lambda>qt. i = fst qt) (question_tags_tbl db)))"

text \<open>
  What the loop of GetQuestions makes of the tags column and of the row of a group;
  \<open>extend\<close> appends a list to a slice, and \<open>delivered\<close> is the part of the
  result that the driver hands over.
\<close>

definition decode_tags :: "sqlval \<Rightarrow> string slice" where
  "decode_tags v = (case v of SStr s \<Rightarrow> Some (Split s (CHR '','')) | _ \<Rightarrow> Some [])"

definition group_question :: "engine \<Rightarrow> joined_row list \<Rightarrow> Question" where
  "group_question eng g =
     \<lparr>ID = q_id (hd g), Language = q_language (hd g), Type = q_type (hd g), Task = q_task (hd g),
      Tags = decode_tags (group_concat eng g)\<rparr>"

definition extend :: "'a slice \<Rightarrow> 'a list \<Rightarrow> 'a slice" where
  "extend s xs = fold (\<lambda>x s. append s x) xs s"

definition row_of :: "engine \<Rightarrow> joined_row list \<Rightarrow> sqlval list" where
  "row_of eng g = [SInt (q_id (hd g)), SStr (q_language (hd g)), SStr (q_type (hd g)),
                   SStr (q_task (hd g)), group_concat eng g]"

definition delivered :: "(nat \<times> string) option \<Rightarrow> 'a list \<Rightarrow> 'a list" where
  "delivered f xs = (case f of None \<Rightarrow> xs | Some (n, e) \<Rightarrow> take n xs)"

text \<open>
  \<open>render\<close> writes a statement out, and \<open>stmt_of\<close> is the statement that the
  text of \<open>build_query\<close> is read as; \<open>result_groups\<close> are the groups of the
  statement that a call of GetQuestions sends.
\<close>

fun cond_text :: "cond \<Rightarrow> string" where
  "cond_text LanguageEq = ''q.language = ?''"
| "cond_text TypeEq = ''q.type = ?''"
| "cond_text (TagNameIn n) = ''t.name IN (?'' @ Repeat '',?'' (n - 1) @ '')''"

fun valid_cond :: "cond \<Rightarrow> bool" where
  "valid_cond (TagNameIn n) = (0 < n)"
| "valid_cond c = True"

definition render :: "statement \<Rightarrow> string" where
  "render st =
     select_from @
     (case matching_tags st of
        None \<Rightarrow> []
      | Some n \<Rightarrow> matching_open @ Repeat '',?'' (n - 1) @ matching_close) @
     (if conditions st = [] then [] else '' WHERE '' @ Join (map cond_text (conditions st)) '' AND '') @
     '' GROUP BY q.id''"

definition valid_statement :: "statement \<Rightarrow> bool" where
  "valid_statement st =
     ((case matching_tags st of None \<Rightarrow> True | Some n \<Rightarrow> 0 < n) \<and> list_all valid_cond (conditions st))"

definition stmt_of :: "string \<Rightarrow> string \<Rightarrow> string list \<Rightarrow> QueryConfig option \<Rightarrow> statement" where
  "stmt_of language qType tags config =
     \<lparr>matching_tags = (if tags \<noteq> [] \<and> matchAll config then Some (length tags) else None),
      conditions = (if language \<noteq> [] then [LanguageEq] else []) @
                   (if qType \<noteq> [] then [TypeEq] else []) @
                   (if tags \<noteq> [] \<and> \<not> matchAll config then [TagNameIn (length tags)] else [])\<rparr>"

definition result_groups ::
  "env \<Rightarrow> storage \<Rightarrow> string \<Rightarrow> string \<Rightarrow> string list \<Rightarrow> QueryConfig option \<Rightarrow> joined_row list list" where
  "result_groups e db language qType tags config =
     group_by_id (where_rows (settings e) db (stmt_of language qType tags config)
                    (snd (build_query language qType tags config)))"

text \<open>
  The query that the spec calls the same query with tag filtering entirely disabled:
  the language and type conditions alone. \<open>passes\<close> is the language and type filter
  on a row of \<open>questions\<close>, as the engine judges it.
\<close>

definition query_without_tag_filter :: "string \<Rightarrow> string \<Rightarrow> string \<times> sqlval list" where
  "query_without_tag_filter language qType =
     (select_from @
      (if language = [] \<and> qType = [] then []
       else '' WHERE '' @
            Join ((if language \<noteq> [] then [''q.language = ?''] else []) @
                  (if qType \<noteq> [] then [''q.type = ?''] else [])) '' AND '') @
      '' GROUP BY q.id'',
      (if language \<noteq> [] then [SStr language] else []) @
      (if qType \<noteq> [] then [SStr qType] else []))"

definition passes :: "engine \<Rightarrow> string \<Rightarrow> string \<Rightarrow> question_row \<Rightarrow> bool" where
  "passes eng language qType q =
     ((language = [] \<or> collate eng (fst (snd q)) = collate eng language) \<and>
      (qType = [] \<or> collate eng (fst (snd (snd q))) = collate eng qType))"

text \<open>A name with a comma.\<close>

definition has_comma :: "string \<Rightarrow> bool" where
  "has_comma n = (CHR '','' \<in> set n)"

text \<open>
  For AddQuestion: a call that failed, a list of calls without a failure, the error
  that AddQuestion makes of a failed call, and the states of a transaction. A
  transaction is \<open>running\<close> while no call has failed; it is \<open>aborted\<close> with
  \<open>err\<close> when its last call is its only failure, \<open>err\<close> reports that call,
  and its tables are again those of \<open>db\<close>.
\<close>

fun failed :: "call \<times> outcome \<Rightarrow> bool" where
  "failed (c, Failed m) = True"
| "failed (c, oc) = False"

definition clean :: "(call \<times> outcome) list \<Rightarrow> bool" where
  "clean cs = list_all (\<lambda>x. \<not> failed x) cs"

fun wrap :: "call \<Rightarrow> string \<Rightarrow> error" where
  "wrap CBegin m = FailedToBeginTransaction m"
| "wrap CInsertQuestion m = FailedToInsertQuestion m"
| "wrap CQuestionID m = FailedToGetLastInsertID m"
| "wrap (CSelectTag tag) m = FailedToQueryTag m"
| "wrap (CInsertTag tag) m = FailedToInsertTag m"
| "wrap CTagID m = FailedToGetTagID m"
| "wrap (CInsertQuestionTag i j) m = FailedToInsertQuestionTag m"
| "wrap CCommit m = CommitError m"

definition same_tables :: "storage \<Rightarrow> storage \<Rightarrow> bool" where
  "same_tables a b =
     (questions_tbl a = questions_tbl b \<and> tags_tbl a = tags_tbl b \<and>
      question_tags_tbl a = question_tags_tbl b)"

definition running :: "storage \<Rightarrow> tx \<Rightarrow> bool" where
  "running db t = (same_tables (snapshot t) db \<and> clean (calls t))"

definition first_failure :: "(call \<times> outcome) list \<Rightarrow> error \<Rightarrow> bool" where
  "first_failure cs err =
     (\<exists>pre c m. cs = pre @ [(c, Failed m)] \<and> clean pre \<and> err = wrap c m)"

definition aborted :: "storage \<Rightarrow> error \<Rightarrow> tx \<Rightarrow> bool" where
  "aborted db err t = (same_tables (work t) db \<and> first_failure (calls t) err)"

definition settled :: "storage \<Rightarrow> error option \<times> tx \<Rightarrow> bool" where
  "settled db r = (case r of (Some e, t) \<Rightarrow> aborted db e t | (None, t) \<Rightarrow> running db t)"

definition outcome_ok :: "storage \<Rightarrow> error option \<times> storage \<times> (call \<times> outcome) list \<Rightarrow> bool" where
  "outcome_ok db r =
     (case r of
        (Some e, db', cs) \<Rightarrow> same_tables db' db \<and> first_failure cs e
      | (None, db', cs) \<Rightarrow> clean cs)"

definition links_ok :: "tx \<Rightarrow> bool" where
  "links_ok t =
     (distinct (question_tags_tbl (snapshot t)) \<and> distinct (question_tags_tbl (work t)))"

section \<open>Concrete data\<close>

text \<open>
  A collation that ignores the case of the letters A to Z, which is what
  utf8mb4\_unicode\_ci does on the strings used below; an engine with that collation and
  the default \<open>group_concat_max_len\<close>, for any outcome \<open>co\<close> of the comparisons
  of a string with a number, and one where such a comparison is never true (GetQuestions
  makes one only when an argument reaches the wrong placeholder); the rows that
  init.sql inserts (its strings are UTF-8, the u with diaeresis being the bytes C3 BC), each
  table in the order of its primary key; a driver without faults; the four questions of
  init.sql as GetQuestions returns them without a filter; and a few inputs.
\<close>

definition lower :: "char \<Rightarrow> char" where
  "lower c =
     (case map_of (zip ''ABCDEFGHIJKLMNOPQRSTUVWXYZ'' ''abcdefghijklmnopqrstuvwxyz'') c of
        None \<Rightarrow> c
      | Some d \<Rightarrow> d)"

definition ascii_ci :: "string \<Rightarrow> string" where
  "ascii_ci s = map lower s"

definition engine_ci :: "(sqlval \<Rightarrow> sqlval \<Rightarrow> bool) \<Rightarrow> engine" where
  "engine_ci co = \<lparr>collate = ascii_ci, coerce_eq = co, group_concat_max_len = 1024\<rparr>"

definition default_engine :: engine where
  "default_engine = engine_ci (\<lambda>a b. False)"

definition seed :: storage where
  "seed =
     \<lparr>questions_tbl =
        [(1, ''en'', ''truth'', ''Have you ever lied to your best friend?''),
         (2, ''en'', ''dare'', ''Take a shot of vodka.''),
         (3, ''de'', ''truth'', ''Hast du jemals Essen gestohlen?''),
         (4, ''de'', ''dare'', ''Tanze f'' @ [CHR 0xC3, CHR 0xBC] @ ''r 1 Minute ohne Musik.'')],
      tags_tbl = [(1, ''18+''), (2, ''alcohol''), (3, ''food'')],
      question_tags_tbl = [(1, 1), (2, 1), (2, 2), (3, 3), (4, 1)],
      questions_auto = 5,
      tags_auto = 4\<rparr>"

definition reliable :: env where
  "reliable = \<lparr>settings = default_engine, query_fault = None, iter_fault = None\<rparr>"

definition no_faults :: faults where
  "no_faults k = None"

definition q1 :: Question where
  "q1 = \<lparr>ID = 1, Language = ''en'', Type = ''truth'',
          Task = ''Have you ever lied to your best friend?'', Tags = Some [''18+'']\<rparr>"

definition q2 :: Question where
  "q2 = \<lparr>ID = 2, Language = ''en'', Type = ''dare'',
          Task = ''Take a shot of vodka.'', Tags = Some [''18+'', ''alcohol'']\<rparr>"

definition q3 :: Question where
  "q3 = \<lparr>ID = 3, Language = ''de'', Type = ''truth'',
          Task = ''Hast du jemals Essen gestohlen?'', Tags = Some [''food'']\<rparr>"

definition q4 :: Question where
  "q4 = \<lparr>ID = 4, Language = ''de'', Type = ''dare'',
          Task = ''Tanze f'' @ [CHR 0xC3, CHR 0xBC] @ ''r 1 Minute ohne Musik.'',
          Tags = Some [''18+'']\<rparr>"


definition new_question :: Question where
  "new_question =
     \<lparr>ID = 0, Language = ''en'', Type = ''truth'', Task = ''New one'', Tags = Some [''newtag'']\<rparr>"

definition link_fails :: faults where
  "link_fails k = (if k = 6 then Some ''invalid connection'' else None)"

definition twice_tagged :: Question where
  "twice_tagged =
     \<lparr>ID = 0, Language = ''en'', Type = ''dare'', Task = ''Dance.'', Tags = Some [''party'', ''party'']\<rparr>"

section \<open>The text that GetQuestions builds, read back by the engine\<close>

declare parse_conds.simps [simp del]

lemma strip_prefix_append [simp]: "strip_prefix p (p @ r) = Some r"
  by (induction p) auto

lemma more_placeholders_close [simp]:
  "more_placeholders (CHR '')'' # r) = (0, CHR '')'' # r)"
  by (cases r) auto

lemma more_placeholders_Repeat [simp]:
  "more_placeholders (Repeat '',?'' k @ CHR '')'' # r) = (k, CHR '')'' # r)"
  by (induction k) (auto simp: Repeat_def)

lemma parse_cond_text: "valid_cond c \<Longrightarrow> parse_cond (cond_text c @ r) = Some (c, r)"
  by (cases c) (simp_all add: parse_cond_def)

lemma parse_conds_Join:
  "cs \<noteq> [] \<Longrightarrow> list_all valid_cond cs \<Longrightarrow>
     parse_conds (Join (map cond_text cs) '' AND '' @ '' GROUP BY q.id'') = Some (cs, '' GROUP BY q.id'')"
proof (induction cs rule: induct_list012)
  case 1
  then show ?case by simp
next
  case (2 c)
  then have "parse_cond (cond_text c @ '' GROUP BY q.id'') = Some (c, '' GROUP BY q.id'')"
    by (simp add: parse_cond_text del: cond_text.simps)
  then show ?case
    by (subst parse_conds.simps) (simp del: cond_text.simps)
next
  case (3 c d cs)
  let ?rest = "Join (map cond_text (d # cs)) '' AND '' @ '' GROUP BY q.id''"
  from 3 have ih: "parse_conds ?rest = Some (d # cs, '' GROUP BY q.id'')"
    by simp
  from 3 have "parse_cond (cond_text c @ '' AND '' @ ?rest) = Some (c, '' AND '' @ ?rest)"
    by (simp add: parse_cond_text del: cond_text.simps)
  then have "parse_conds (cond_text c @ '' AND '' @ ?rest) = Some (c # d # cs, '' GROUP BY q.id'')"
    using ih by (subst parse_conds.simps) (simp del: cond_text.simps)
  then show ?case by simp
qed

lemma not_open_space: "strip_prefix matching_open (CHR '' '' # r) = None"
  by (simp add: matching_open_def nl_def)

lemma not_where_group: "strip_prefix '' WHERE '' '' GROUP BY q.id'' = None"
  by simp

lemma close_cons: "matching_close = CHR '')'' # tl matching_close"
  by (simp add: matching_close_def)

lemma parse_select_render: "valid_statement st \<Longrightarrow> parse_select (render st) = Some st"
proof -
  assume v: "valid_statement st"
  define tail where "tail =
     (if conditions st = [] then [] else '' WHERE '' @ Join (map cond_text (conditions st)) '' AND '') @
     '' GROUP BY q.id''"
  have tail_space: "\<exists>r. tail = CHR '' '' # r"
    by (simp add: tail_def)
  have tail_parse:
    "(case strip_prefix '' WHERE '' tail of
        None \<Rightarrow> (if tail = '' GROUP BY q.id'' then Some \<lparr>matching_tags = mt, conditions = []\<rparr> else None)
      | Some r3 \<Rightarrow>
         (case parse_conds r3 of
            None \<Rightarrow> None
          | Some (cs, r4) \<Rightarrow>
             (if r4 = '' GROUP BY q.id'' then Some \<lparr>matching_tags = mt, conditions = cs\<rparr> else None)))
     = Some \<lparr>matching_tags = mt, conditions = conditions st\<rparr>" for mt
  proof (cases "conditions st = []")
    case True
    then show ?thesis by (simp add: tail_def)
  next
    case False
    with v have "parse_conds (Join (map cond_text (conditions st)) '' AND '' @ '' GROUP BY q.id'')
                 = Some (conditions st, '' GROUP BY q.id'')"
      by (intro parse_conds_Join) (auto simp: valid_statement_def)
    with False show ?thesis by (simp add: tail_def)
  qed
  show ?thesis
  proof (cases "matching_tags st")
    case None
    then have r: "render st = select_from @ tail"
      by (simp add: render_def tail_def)
    from tail_space obtain r' where t: "tail = CHR '' '' # r'" by blast
    have "strip_prefix matching_open tail = None"
      unfolding t by (rule not_open_space)
    then show ?thesis
      unfolding r parse_select_def using tail_parse [of None] None
      by (simp del: strip_prefix.simps)
  next
    case (Some n)
    then have r: "render st = select_from @ matching_open @ Repeat '',?'' (n - 1) @ matching_close @ tail"
      by (simp add: render_def tail_def)
    from Some v have n: "Suc (n - 1) = n" by (simp add: valid_statement_def)
    have m: "more_placeholders (Repeat '',?'' (n - Suc 0) @ matching_close @ tail)
             = (n - Suc 0, matching_close @ tail)"
      by (subst (1 2) close_cons) simp
    show ?thesis
      unfolding r parse_select_def using tail_parse [of "Some n"] Some n
      by (simp add: m del: strip_prefix.simps)
  qed
qed

lemma build_query_text: "fst (build_query language qType tags config) = render (stmt_of language qType tags config)"
  by (simp add: build_query_def render_def stmt_of_def Let_def)

lemma valid_stmt_of: "valid_statement (stmt_of language qType tags config)"
  by (simp add: valid_statement_def stmt_of_def)

lemma parse_select_build:
  "parse_select (fst (build_query language qType tags config)) = Some (stmt_of language qType tags config)"
  by (simp only: build_query_text parse_select_render valid_stmt_of)

lemma build_query_args:
  "snd (build_query language qType tags config) =
     (if language \<noteq> [] then [SStr language] else []) @
     (if qType \<noteq> [] then [SStr qType] else []) @
     (if tags \<noteq> [] then map SStr tags @ (if matchAll config then [SInt (int (length tags))] else [])
      else [])"
  by (simp add: build_query_def Let_def)

lemma placeholders_build:
  "placeholders (stmt_of language qType tags config) = length (snd (build_query language qType tags config))"
  by (simp add: build_query_args placeholders_def stmt_of_def)

lemma query_text_independent:
  assumes "(language = []) = (language' = [])" "(qType = []) = (qType' = [])"
    "length tags = length tags'" "matchAll config = matchAll config'"
  shows "fst (build_query language qType tags config) = fst (build_query language' qType' tags' config')"
proof -
  from assms(3) have "(tags = []) = (tags' = [])" by auto
  with assms have "stmt_of language qType tags config = stmt_of language' qType' tags' config'"
    by (simp add: stmt_of_def)
  then show ?thesis by (simp add: build_query_text)
qed

lemma build_query_no_tags:
  "build_query language qType [] config = query_without_tag_filter language qType"
  by (simp add: build_query_def query_without_tag_filter_def)

section \<open>From the rows of the engine to the result of GetQuestions\<close>

lemma elems_None [simp]: "elems None = []"
  by (simp add: elems_def)

lemma elems_append [simp]: "elems (append s x) = elems s @ [x]"
  by (simp add: elems_def append_def split: option.splits)

lemma elems_extend [simp]: "elems (extend s xs) = elems s @ xs"
  unfolding extend_def by (induction xs arbitrary: s) auto

lemma group_concat_cases: "group_concat eng g = SNull \<or> (\<exists>s. group_concat eng g = SStr s)"
  by (simp add: group_concat_def split: list.splits)

lemma scan_select_row:
  "g \<noteq> [] \<Longrightarrow> select_row eng g = [r] \<Longrightarrow>
     scan_rows (Row r rest) qs = scan_rows rest (append qs (group_question eng g))"
  using group_concat_cases [of eng g]
  by (cases g) (auto simp: group_question_def decode_tags_def)

lemma scan_rows_groups:
  "list_all (\<lambda>g. g \<noteq> []) gs \<Longrightarrow>
     scan_rows (foldr Row (concat (map (select_row eng) gs)) c) qs =
     scan_rows c (extend qs (map (group_question eng) gs))"
proof (induction gs arbitrary: qs)
  case Nil
  then show ?case by (simp add: extend_def)
next
  case (Cons g gs)
  then obtain r rs where g: "g = r # rs" by (cases g) auto
  have "select_row eng g = [hd (select_row eng g)]" by (simp add: g)
  with Cons show ?case
    using scan_select_row [of g eng "hd (select_row eng g)"]
    by (simp add: g extend_def del: scan_rows.simps)
qed

lemma group_by_id_mem:
  "g \<in> set (group_by_id rs) \<longleftrightarrow> (\<exists>r \<in> set rs. g = filter (\<lambda>x. q_id x = q_id r) rs)"
proof (induction rs arbitrary: g rule: group_by_id.induct)
  case 1
  then show ?case by simp
next
  case (2 r rs)
  let ?rest = "filter (\<lambda>x. q_id x \<noteq> q_id r) rs"
  have other: "filter (\<lambda>x. q_id x = q_id r') ?rest = filter (\<lambda>x. q_id x = q_id r') (r # rs)"
    if "q_id r' \<noteq> q_id r" for r'
    using that by (auto intro: filter_cong simp: filter_empty_conv)
  show ?case
  proof
    assume "g \<in> set (group_by_id (r # rs))"
    then consider "g = r # filter (\<lambda>x. q_id x = q_id r) rs" | "g \<in> set (group_by_id ?rest)"
      by auto
    then show "\<exists>r' \<in> set (r # rs). g = filter (\<lambda>x. q_id x = q_id r') (r # rs)"
    proof cases
      case 1
      then show ?thesis by auto
    next
      case 2
      then obtain r' where r': "r' \<in> set ?rest" "g = filter (\<lambda>x. q_id x = q_id r') ?rest"
        using "2.IH" by blast
      then have ne: "q_id r' \<noteq> q_id r" and mem: "r' \<in> set (r # rs)" by simp_all
      from r'(2) other [OF ne] have "g = filter (\<lambda>x. q_id x = q_id r') (r # rs)" by simp
      with mem show ?thesis by blast
    qed
  next
    assume "\<exists>r' \<in> set (r # rs). g = filter (\<lambda>x. q_id x = q_id r') (r # rs)"
    then obtain r' where r': "r' \<in> set (r # rs)" "g = filter (\<lambda>x. q_id x = q_id r') (r # rs)"
      by blast
    show "g \<in> set (group_by_id (r # rs))"
    proof (cases "q_id r' = q_id r")
      case True
      with r' show ?thesis by simp
    next
      case False
      with r' have "r' \<in> set ?rest" by auto
      moreover from False r' have "g = filter (\<lambda>x. q_id x = q_id r') ?rest"
        using other [of r'] by simp
      ultimately have "g \<in> set (group_by_id ?rest)" using "2.IH" by blast
      then show ?thesis by simp
    qed
  qed
qed

lemma group_by_id_nonempty: "list_all (\<lambda>g. g \<noteq> []) (group_by_id rs)"
proof -
  have "g \<noteq> []" if "g \<in> set (group_by_id rs)" for g
  proof -
    from that obtain r where "r \<in> set rs" "g = filter (\<lambda>x. q_id x = q_id r) rs"
      unfolding group_by_id_mem by blast
    then show ?thesis by (auto simp: filter_empty_conv)
  qed
  then show ?thesis by (simp add: list_all_iff)
qed

lemma group_by_id_distinct: "distinct (map (\<lambda>g. q_id (hd g)) (group_by_id rs))"
proof (induction rs rule: group_by_id.induct)
  case 1
  then show ?case by simp
next
  case (2 r rs)
  let ?rest = "filter (\<lambda>x. q_id x \<noteq> q_id r) rs"
  have ne: "q_id (hd g) \<noteq> q_id r" if "g \<in> set (group_by_id ?rest)" for g
  proof -
    from that obtain r' where r': "r' \<in> set ?rest" "g = filter (\<lambda>x. q_id x = q_id r') ?rest"
      unfolding group_by_id_mem by blast
    then have "g \<noteq> []" by (auto simp: filter_empty_conv)
    then have "hd g \<in> set g" by simp
    with r' show ?thesis by auto
  qed
  then have "q_id r \<notin> (\<lambda>g. q_id (hd g)) ` set (group_by_id ?rest)"
    by force
  with 2 show ?case by simp
qed

lemma select_row_nonempty: "g \<noteq> [] \<Longrightarrow> select_row eng g = [row_of eng g]"
  by (cases g) (simp_all add: row_of_def)

lemma concat_select_row:
  "list_all (\<lambda>g. g \<noteq> []) gs \<Longrightarrow> concat (map (select_row eng) gs) = map (row_of eng) gs"
  by (induction gs) (simp_all add: select_row_nonempty)

lemma run_select_rows:
  "run_select eng db st args = map (row_of eng) (group_by_id (where_rows eng db st args))"
proof -
  let ?gs = "group_by_id (where_rows eng db st args)"
  have "distinct (map (\<lambda>g. q_id (hd g)) ?gs)" by (rule group_by_id_distinct)
  moreover have "map (\<lambda>g. q_id (hd g)) ?gs = map (\<lambda>r. case hd r of SInt i \<Rightarrow> i | _ \<Rightarrow> 0) (map (row_of eng) ?gs)"
    by (simp add: row_of_def)
  ultimately have "distinct (map (row_of eng) ?gs)"
    by (metis distinct_map)
  then show ?thesis
    by (simp add: run_select_def concat_select_row group_by_id_nonempty)
qed

lemma scan_rows_row_of:
  "list_all (\<lambda>g. g \<noteq> []) gs \<Longrightarrow> c = Done \<or> c = Broken e \<Longrightarrow>
     scan_rows (foldr Row (map (row_of eng) gs) c) qs = Inr (extend qs (map (group_question eng) gs))"
  using scan_rows_groups [of gs eng c qs] by (auto simp: concat_select_row)

lemma scan_rows_deliver:
  "list_all (\<lambda>g. g \<noteq> []) gs \<Longrightarrow>
     scan_rows (deliver (map (row_of eng) gs) f) qs = Inr (extend qs (map (group_question eng) (delivered f gs)))"
proof (cases f)
  case None
  assume "list_all (\<lambda>g. g \<noteq> []) gs"
  with None show ?thesis
    using scan_rows_row_of [of gs Done _ eng] by (simp add: deliver_def delivered_def)
next
  case (Some p)
  assume a: "list_all (\<lambda>g. g \<noteq> []) gs"
  obtain n e where p: "p = (n, e)" by (cases p)
  from a have "list_all (\<lambda>g. g \<noteq> []) (take n gs)"
    by (auto simp: list_all_iff dest: in_set_takeD)
  then show ?thesis
    using scan_rows_row_of [of "take n gs" "Broken e" e eng qs]
    by (simp add: deliver_def delivered_def Some p take_map)
qed

lemma GetQuestions_groups:
  "GetQuestions e db language qType tags config =
     (case query_fault e of
        Some err \<Rightarrow> Inl (FailedToFetchQuestions err)
      | None \<Rightarrow> Inr (extend None (map (group_question (settings e))
                   (delivered (iter_fault e) (result_groups e db language qType tags config)))))"
proof -
  obtain qtext args where b: "build_query language qType tags config = (qtext, args)"
    by (cases "build_query language qType tags config")
  then have p: "parse_select qtext = Some (stmt_of language qType tags config)"
    using parse_select_build [of language qType tags config] by simp
  from b have l: "length args = placeholders (stmt_of language qType tags config)"
    using placeholders_build [of language qType tags config] by simp
  show ?thesis
    unfolding GetQuestions_def b
    by (simp add: Query_def p l run_select_rows scan_rows_deliver group_by_id_nonempty
          result_groups_def b split: option.splits)
qed

lemmas eval_defs = result_groups_def build_query_args stmt_of_def matchAll_def where_rows_def
  from_rows_def left_join_def q_id_def q_language_def q_type_def q_task_def t_name_def sql_in_def
  matching_ids_def delivered_def extend_def append_def group_question_def group_concat_def
  group_names_def decode_tags_def default_engine_def engine_ci_def ascii_ci_def lower_def

lemma query_fault_reported:
  "query_fault e = Some err \<Longrightarrow>
     GetQuestions e db language qType tags config = Inl (FailedToFetchQuestions err)"
  by (simp add: GetQuestions_groups)

lemma scan_failure_reported:
  "Scan r = Inl err \<Longrightarrow> list_all (\<lambda>x. \<exists>y. Scan x = Inr y) pre \<Longrightarrow>
     scan_rows (foldr Row pre (Row r rest)) qs = Inl (FailedToParseQuestion err)"
proof (induction pre arbitrary: qs)
  case Nil
  then show ?case by simp
next
  case (Cons x pre)
  from Cons.prems(2) obtain y where "Scan x = Inr y" by auto
  with Cons show ?case by (cases y) (simp add: Let_def split: option.splits)
qed

section \<open>The joined rows and the tags of a question\<close>

lemma left_join_mem:
  "(x, y) \<in> set (left_join xs f) \<longleftrightarrow>
     x \<in> set xs \<and> (case y of None \<Rightarrow> f x = [] | Some z \<Rightarrow> z \<in> set (f x))"
  unfolding left_join_def by (cases y) (auto split: if_splits)

lemma from_rows_mem:
  "(q, qt, t) \<in> set (from_rows db) \<longleftrightarrow>
     q \<in> set (questions_tbl db) \<and>
     (case qt of
        None \<Rightarrow> (\<forall>l \<in> set (question_tags_tbl db). fst q \<noteq> fst l) \<and> t = None
      | Some l \<Rightarrow> l \<in> set (question_tags_tbl db) \<and> fst q = fst l \<and>
         (case t of
            None \<Rightarrow> (\<forall>u \<in> set (tags_tbl db). snd l \<noteq> fst u)
          | Some u \<Rightarrow> u \<in> set (tags_tbl db) \<and> snd l = fst u))"
proof -
  have "(q, qt, t) \<in> set (from_rows db) \<longleftrightarrow>
        ((q, qt), t) \<in> set (left_join
          (left_join (questions_tbl db) (\<lambda>q. filter (\<lambda>qt. fst q = fst qt) (question_tags_tbl db)))
          (\<lambda>(q, qt). case qt of
                        None \<Rightarrow> []
                      | Some l \<Rightarrow> filter (\<lambda>t. snd l = fst t) (tags_tbl db)))"
    unfolding from_rows_def by force
  then show ?thesis
    unfolding left_join_mem
    by (auto simp: filter_empty_conv split: option.splits)
qed

lemma concat_map_mem: "x \<in> set xs \<Longrightarrow> y \<in> set (f x) \<Longrightarrow> y \<in> set (concat (map f xs))"
  by auto

lemma from_rows_tag_name:
  assumes "r \<in> set (from_rows db)" "t_name r = SStr n"
  shows "n \<in> set (tag_names db (q_id r))"
proof -
  obtain q qt t where r: "r = (q, qt, t)" by (cases r)
  from assms(2) obtain u where t: "t = Some u" and u: "snd u = n"
    by (cases t) (simp_all add: t_name_def r)
  from assms(1) have "(q, qt, Some u) \<in> set (from_rows db)" by (simp add: r t)
  then obtain l where l: "l \<in> set (question_tags_tbl db)" "fst q = fst l"
      "u \<in> set (tags_tbl db)" "snd l = fst u"
    unfolding from_rows_mem by (cases qt) auto
  from l(1,2) have 1: "l \<in> set (filter (\<lambda>qt. fst q = fst qt) (question_tags_tbl db))"
    by simp
  from l(3,4) have "u \<in> set (filter (\<lambda>t. snd l = fst t) (tags_tbl db))"
    by simp
  then have "snd u \<in> snd ` set (filter (\<lambda>t. snd l = fst t) (tags_tbl db))"
    by (rule imageI)
  then have 2: "n \<in> set (map snd (filter (\<lambda>t. snd l = fst t) (tags_tbl db)))"
    by (simp only: set_map u)
  have "n \<in> set (tag_names db (fst q))"
    unfolding tag_names_def using 1 2 by (rule concat_map_mem)
  then show ?thesis by (simp add: q_id_def r)
qed




lemma GetQuestions_mem:
  assumes "GetQuestions e db language qType tags config = Inr qs" "q \<in> set (elems qs)"
  shows "\<exists>g \<in> set (result_groups e db language qType tags config).
           q = group_question (settings e) g"
proof -
  from assms(1) have "qs = extend None (map (group_question (settings e))
      (delivered (iter_fault e) (result_groups e db language qType tags config)))"
    unfolding GetQuestions_groups by (auto split: option.splits)
  with assms(2) obtain g where "g \<in> set (delivered (iter_fault e) (result_groups e db language qType tags config))"
     "q = group_question (settings e) g"
    by auto
  then show ?thesis
    by (auto simp: delivered_def split: option.splits dest: in_set_takeD)
qed




lemma result_groups_hd:
  assumes "g \<in> set (result_groups e db language qType tags config)"
  shows "hd g \<in> set (where_rows (settings e) db (stmt_of language qType tags config)
                        (snd (build_query language qType tags config)))"
proof -
  let ?rows = "where_rows (settings e) db (stmt_of language qType tags config)
                 (snd (build_query language qType tags config))"
  from assms obtain r where r: "r \<in> set ?rows" "g = filter (\<lambda>x. q_id x = q_id r) ?rows"
    unfolding result_groups_def group_by_id_mem by blast
  then have "g \<noteq> []" by (auto simp: filter_empty_conv)
  then have "hd g \<in> set g" by simp
  with r(2) show ?thesis by simp
qed

lemma from_rows_question: "r \<in> set (from_rows db) \<Longrightarrow> fst r \<in> set (questions_tbl db)"
  by (cases r) (simp add: from_rows_mem)

lemma from_rows_covers:
  assumes "q \<in> set (questions_tbl db)"
  shows "\<exists>r \<in> set (from_rows db). fst r = q"
proof (cases "\<exists>l \<in> set (question_tags_tbl db). fst q = fst l")
  case False
  with assms have "(q, None, None) \<in> set (from_rows db)" by (simp add: from_rows_mem)
  then show ?thesis by force
next
  case True
  then obtain l where l: "l \<in> set (question_tags_tbl db)" "fst q = fst l" by blast
  show ?thesis
  proof (cases "\<exists>u \<in> set (tags_tbl db). snd l = fst u")
    case False
    with assms l have "(q, Some l, None) \<in> set (from_rows db)" by (simp add: from_rows_mem)
    then show ?thesis by force
  next
    case True
    then obtain u where "u \<in> set (tags_tbl db)" "snd l = fst u" by blast
    with assms l have "(q, Some l, Some u) \<in> set (from_rows db)" by (simp add: from_rows_mem)
    then show ?thesis by force
  qed
qed

lemma result_groups_ids:
  "(\<lambda>g. q_id (hd g)) ` set (result_groups e db language qType tags config) =
   q_id ` set (where_rows (settings e) db (stmt_of language qType tags config)
                 (snd (build_query language qType tags config)))"
  (is "?f ` set ?gs = q_id ` set ?rows")
proof (intro set_eqI iffI)
  fix i
  assume "i \<in> ?f ` set ?gs"
  then obtain g where g: "g \<in> set ?gs" "i = q_id (hd g)" by blast
  from result_groups_hd [OF g(1)] g(2) show "i \<in> q_id ` set ?rows" by blast
next
  fix i
  assume "i \<in> q_id ` set ?rows"
  then obtain r where r: "r \<in> set ?rows" "i = q_id r" by blast
  let ?g = "filter (\<lambda>x. q_id x = q_id r) ?rows"
  from r(1) have m: "?g \<in> set ?gs"
    unfolding result_groups_def group_by_id_mem by blast
  from r(1) have "?g \<noteq> []" by (auto simp: filter_empty_conv)
  then have "hd ?g \<in> set ?g" by (rule hd_in_set)
  then have "q_id (hd ?g) = q_id r" by simp
  with m r(2) show "i \<in> ?f ` set ?gs" by force
qed

lemma GetQuestions_ids:
  assumes "query_fault e = None" "iter_fault e = None"
  shows "\<exists>qs. GetQuestions e db language qType tags config = Inr qs \<and>
           ID ` set (elems qs) =
           q_id ` set (where_rows (settings e) db (stmt_of language qType tags config)
                         (snd (build_query language qType tags config)))"
proof -
  let ?gs = "result_groups e db language qType tags config"
  from assms have "GetQuestions e db language qType tags config
      = Inr (extend None (map (group_question (settings e)) ?gs))"
    by (simp add: GetQuestions_groups delivered_def)
  moreover have "ID ` set (elems (extend None (map (group_question (settings e)) ?gs)))
      = (\<lambda>g. q_id (hd g)) ` set ?gs"
    by (simp add: image_image group_question_def)
  ultimately show ?thesis unfolding result_groups_ids by blast
qed

section \<open>The WHERE clause without the subquery\<close>

lemma sql_eq_name:
  "sql_eq eng (t_name r) (SStr n) = (\<exists>m. t_name r = SStr m \<and> collate eng m = collate eng n)"
  by (cases "snd (snd r)") (simp_all add: t_name_def)

lemma sql_in_names:
  "sql_in eng (t_name r) (map SStr tags) =
     (\<exists>n \<in> set tags. \<exists>m. t_name r = SStr m \<and> collate eng m = collate eng n)"
  by (simp add: sql_in_def list_ex_iff sql_eq_name)

lemma where_rows_plain:
  assumes "\<not> (tags \<noteq> [] \<and> matchAll config)"
  shows "where_rows eng db (stmt_of language qType tags config)
           (snd (build_query language qType tags config)) =
         filter (\<lambda>r. (language = [] \<or> collate eng (q_language r) = collate eng language) \<and>
                      (qType = [] \<or> collate eng (q_type r) = collate eng qType) \<and>
                      (tags = [] \<or>
                       (\<exists>n \<in> set tags. \<exists>m. t_name r = SStr m \<and> collate eng m = collate eng n)))
           (from_rows db)"
proof -
  have "where_holds eng (conditions (stmt_of language qType tags config))
          (snd (build_query language qType tags config)) r =
        ((language = [] \<or> collate eng (q_language r) = collate eng language) \<and>
         (qType = [] \<or> collate eng (q_type r) = collate eng qType) \<and>
         (tags = [] \<or>
          (\<exists>n \<in> set tags. \<exists>m. t_name r = SStr m \<and> collate eng m = collate eng n)))" for r
    using assms
    by (cases "language = []"; cases "qType = []"; cases "tags = []")
       (simp_all add: stmt_of_def build_query_args sql_in_names)
  then have "where_holds eng (conditions (stmt_of language qType tags config))
          (snd (build_query language qType tags config)) =
        (\<lambda>r. (language = [] \<or> collate eng (q_language r) = collate eng language) \<and>
         (qType = [] \<or> collate eng (q_type r) = collate eng qType) \<and>
         (tags = [] \<or>
          (\<exists>n \<in> set tags. \<exists>m. t_name r = SStr m \<and> collate eng m = collate eng n)))"
    by (rule ext)
  moreover from assms have "matching_tags (stmt_of language qType tags config) = None"
    by (auto simp: stmt_of_def)
  ultimately show ?thesis by (simp add: where_rows_def)
qed

section \<open>Split\<close>

lemma Split_nonempty: "Split s c \<noteq> []"
  by (induction s) (auto split: list.splits)

lemma Split_pieces: "w \<in> set (Split s c) \<Longrightarrow> c \<notin> set w"
proof (induction s arbitrary: w)
  case Nil
  then show ?case by simp
next
  case (Cons a s)
  show ?case
  proof (cases "a = c")
    case True
    with Cons show ?thesis by auto
  next
    case False
    obtain v vs where v: "Split s c = v # vs"
      using Split_nonempty [of s c] by (cases "Split s c") auto
    with False Cons.prems have "w = a # v \<or> w \<in> set vs" by simp
    with Cons.IH [of v] Cons.IH [of w] v False show ?thesis by auto
  qed
qed

lemma decode_tags_pieces: "w \<in> set (elems (decode_tags v)) \<Longrightarrow> CHR '','' \<notin> set w"
  by (cases v) (auto simp: decode_tags_def elems_def dest: Split_pieces)

lemma comma_name_not_returned:
  assumes "GetQuestions e db language qType tags config = Inr qs"
    and "q \<in> set (elems qs)"
    and "n \<in> set (tag_names db (ID q))" and "has_comma n"
  shows "n \<notin> set (elems (Tags q)) \<and> set (elems (Tags q)) \<noteq> set (tag_names db (ID q))"
proof -
  from GetQuestions_mem [OF assms(1,2)]
  obtain g where "q = group_question (settings e) g" by blast
  then have "Tags q = decode_tags (group_concat (settings e) g)"
    by (simp add: group_question_def)
  with assms(4) have "n \<notin> set (elems (Tags q))"
    using decode_tags_pieces [of n] by (auto simp: has_comma_def)
  with assms(3) show ?thesis by blast
qed

section \<open>The statements of AddQuestion\<close>

lemma clean_snoc: "clean (cs @ [x]) = (clean cs \<and> \<not> failed x)"
  by (simp add: clean_def)

lemma Rollback_failed:
  "running db t \<Longrightarrow> aborted db (wrap c m) (Rollback (logged t c (Failed m)))"
  unfolding running_def aborted_def first_failure_def Rollback_def logged_def same_tables_def
  by auto

lemma Exec_insert_question_step:
  assumes "running db t"
  shows "case Exec_insert_question fl t l ty ta of
           (Inl e, t') \<Rightarrow> aborted db (FailedToInsertQuestion e) (Rollback t')
         | (Inr i, t') \<Rightarrow> running db t'"
  using assms Rollback_failed [OF assms, of CInsertQuestion]
  unfolding Exec_insert_question_def
  by (auto simp: Let_def running_def logged_def clean_snoc split: option.splits)

lemma LastInsertId_question_step:
  assumes "running db t"
  shows "case LastInsertId fl CQuestionID t i of
           (Inl e, t') \<Rightarrow> aborted db (FailedToGetLastInsertID e) (Rollback t')
         | (Inr j, t') \<Rightarrow> running db t'"
  using assms Rollback_failed [OF assms, of CQuestionID]
  unfolding LastInsertId_def
  by (auto simp: running_def logged_def clean_snoc split: option.splits)

lemma LastInsertId_tag_step:
  assumes "running db t"
  shows "case LastInsertId fl CTagID t i of
           (Inl e, t') \<Rightarrow> aborted db (FailedToGetTagID e) (Rollback t')
         | (Inr j, t') \<Rightarrow> running db t'"
  using assms Rollback_failed [OF assms, of CTagID]
  unfolding LastInsertId_def
  by (auto simp: running_def logged_def clean_snoc split: option.splits)

lemma QueryRow_tag_step:
  assumes "running db t"
  shows "case QueryRow_tag eng fl t tag of
           (OtherErr e, t') \<Rightarrow> aborted db (FailedToQueryTag e) (Rollback t')
         | (ErrNoRows, t') \<Rightarrow> running db t'
         | (Found j, t') \<Rightarrow> running db t'"
  using assms Rollback_failed [OF assms, of "CSelectTag tag"]
  unfolding QueryRow_tag_def
  by (auto simp: running_def logged_def clean_snoc split: option.splits list.splits)

lemma Exec_insert_tag_step:
  assumes "running db t"
  shows "case Exec_insert_tag eng fl t tag of
           (Inl e, t') \<Rightarrow> aborted db (FailedToInsertTag e) (Rollback t')
         | (Inr i, t') \<Rightarrow> running db t'"
  using assms Rollback_failed [OF assms, of "CInsertTag tag"]
  unfolding Exec_insert_tag_def
  by (auto simp: Let_def running_def logged_def clean_snoc split: option.splits)

lemma Exec_insert_question_tag_step:
  assumes "running db t"
  shows "case Exec_insert_question_tag fl t i j of
           (Some e, t') \<Rightarrow> aborted db (FailedToInsertQuestionTag e) (Rollback t')
         | (None, t') \<Rightarrow> running db t'"
  using assms Rollback_failed [OF assms, of "CInsertQuestionTag i j"]
  unfolding Exec_insert_question_tag_def
  by (auto simp: Let_def running_def logged_def clean_snoc split: option.splits)

lemma Commit_step:
  assumes "running db t"
  shows "case Commit fl t of
           (Some e, t') \<Rightarrow> aborted db e t'
         | (None, t') \<Rightarrow> clean (calls t')"
  using assms Rollback_failed [OF assms, of CCommit]
  unfolding Commit_def
  by (auto simp: running_def logged_def clean_snoc split: option.splits)

lemma link_step:
  assumes "running db t"
  shows "settled db
           (case Exec_insert_question_tag fl t i j of
              (Some e, t) \<Rightarrow> (Some (FailedToInsertQuestionTag e), Rollback t)
            | (None, t) \<Rightarrow> (None, t))"
  using Exec_insert_question_tag_step [OF assms, of fl i j]
  by (auto simp: settled_def split: prod.splits option.splits)

lemma add_tag_step:
  assumes "running db t"
  shows "settled db (add_tag eng fl i t tag)"
proof (cases "QueryRow_tag eng fl t tag")
  case (Pair r1 t1)
  note s1 = QueryRow_tag_step [OF assms, of eng fl tag, unfolded Pair, simplified]
  show ?thesis
  proof (cases r1)
    case (Found j)
    with s1 have "running db t1" by simp
    from link_step [OF this, of fl i j] show ?thesis
      by (simp add: add_tag_def Pair Found)
  next
    case (OtherErr e)
    with s1 show ?thesis
      by (simp add: add_tag_def Pair settled_def)
  next
    case ErrNoRows
    with s1 have r1: "running db t1" by simp
    show ?thesis
    proof (cases "Exec_insert_tag eng fl t1 tag")
      case p2: (Pair r2 t2)
      note s2 = Exec_insert_tag_step [OF r1, of eng fl tag, unfolded p2, simplified]
      show ?thesis
      proof (cases r2)
        case (Inl e)
        with s2 show ?thesis
          by (simp add: add_tag_def Pair ErrNoRows p2 settled_def)
      next
        case (Inr result)
        with s2 have r2: "running db t2" by simp
        show ?thesis
        proof (cases "LastInsertId fl CTagID t2 result")
          case p3: (Pair r3 t3)
          note s3 = LastInsertId_tag_step [OF r2, of fl result, unfolded p3, simplified]
          show ?thesis
          proof (cases r3)
            case e3: (Inl e)
            with s3 show ?thesis
              by (simp add: add_tag_def Pair ErrNoRows p2 Inr p3 settled_def)
          next
            case i3: (Inr j)
            with s3 have "running db t3" by simp
            from link_step [OF this, of fl i j] show ?thesis
              by (simp add: add_tag_def Pair ErrNoRows p2 Inr p3 i3)
          qed
        qed
      qed
    qed
  qed
qed

lemma add_tags_step:
  "running db t \<Longrightarrow> settled db (add_tags eng fl i t tags)"
proof (induction tags arbitrary: t)
  case Nil
  then show ?case by (simp add: settled_def)
next
  case (Cons tag tags)
  obtain r t' where a: "add_tag eng fl i t tag = (r, t')" by (cases "add_tag eng fl i t tag")
  from add_tag_step [OF Cons.prems, of eng fl i tag] have s: "settled db (r, t')"
    by (simp only: a)
  show ?case
  proof (cases r)
    case None
    with s have "running db t'" by (simp add: settled_def)
    from Cons.IH [OF this] show ?thesis by (simp add: a None)
  next
    case (Some e)
    with s show ?thesis by (simp add: a)
  qed
qed

lemma Begin_running: "Begin fl db = Inr t \<Longrightarrow> running db t"
  by (auto simp: Begin_def running_def same_tables_def clean_def split: option.splits)

lemma settled_outcome:
  assumes "settled db r" "running db t0"
  shows "outcome_ok db
           (case (case r of (Some e, t) \<Rightarrow> (Some e, t) | (None, t) \<Rightarrow> Commit fl t) of
              (err, t) \<Rightarrow> (err, work t, calls t))"
proof (cases r)
  case (Pair x t)
  show ?thesis
  proof (cases x)
    case None
    with assms(1) Pair have "running db t" by (simp add: settled_def)
    from Commit_step [OF this, of fl] show ?thesis
      by (cases "Commit fl t")
         (auto simp: Pair None outcome_ok_def aborted_def split: option.splits)
  next
    case (Some e)
    with assms(1) Pair show ?thesis
      by (simp add: settled_def outcome_ok_def aborted_def)
  qed
qed

lemma AddQuestion_outcome: "outcome_ok db (AddQuestion eng fl db q)"
proof (cases "Begin fl db")
  case (Inl a)
  then show ?thesis
    by (cases a)
       (auto simp: AddQuestion_def outcome_ok_def Begin_def same_tables_def first_failure_def
          clean_def split: option.splits)
next
  case (Inr t)
  then have r0: "running db t" by (rule Begin_running)
  obtain r1 t1 where p1: "Exec_insert_question fl t (Language q) (Type q) (Task q) = (r1, t1)"
    by (cases "Exec_insert_question fl t (Language q) (Type q) (Task q)")
  note s1 = Exec_insert_question_step [OF r0, of fl "Language q" "Type q" "Task q",
      unfolded p1, simplified]
  show ?thesis
  proof (cases r1)
    case e1: (Inl e)
    with s1 show ?thesis
      by (simp add: AddQuestion_def Inr p1 outcome_ok_def aborted_def)
  next
    case i1: (Inr result)
    with s1 have r1: "running db t1" by simp
    obtain r2 t2 where p2: "LastInsertId fl CQuestionID t1 result = (r2, t2)"
      by (cases "LastInsertId fl CQuestionID t1 result")
    note s2 = LastInsertId_question_step [OF r1, of fl result, unfolded p2, simplified]
    show ?thesis
    proof (cases r2)
      case e2: (Inl e)
      with s2 show ?thesis
        by (simp add: AddQuestion_def Inr p1 i1 p2 outcome_ok_def aborted_def)
    next
      case i2: (Inr questionID)
      with s2 have r2: "running db t2" by simp
      from settled_outcome [OF add_tags_step [OF r2, of eng fl questionID "elems (Tags q)"] r2, of fl]
      show ?thesis
        by (simp add: AddQuestion_def Inr p1 i1 p2 i2)
    qed
  qed
qed

lemma clean_no_failure: "clean cs \<Longrightarrow> (c, Failed m) \<notin> set cs"
  by (auto simp: clean_def list_all_iff)

lemmas add_defs = AddQuestion_def Begin_def Exec_insert_question_def LastInsertId_def
  QueryRow_tag_def Exec_insert_tag_def Exec_insert_question_tag_def add_tag_def Commit_def
  Rollback_def logged_def elems_def default_engine_def engine_ci_def ascii_ci_def lower_def

lemma links_ok_Rollback: "links_ok t \<Longrightarrow> links_ok (Rollback t)"
  by (simp add: links_ok_def Rollback_def)

lemma links_ok_insert_question:
  "links_ok t \<Longrightarrow> Exec_insert_question fl t l ty ta = (r, t') \<Longrightarrow> links_ok t'"
  by (auto simp: Exec_insert_question_def links_ok_def logged_def Let_def
        split: option.splits if_splits)

lemma links_ok_LastInsertId:
  "links_ok t \<Longrightarrow> LastInsertId fl c t i = (r, t') \<Longrightarrow> links_ok t'"
  by (auto simp: LastInsertId_def links_ok_def logged_def split: option.splits)

lemma links_ok_QueryRow_tag:
  "links_ok t \<Longrightarrow> QueryRow_tag eng fl t tag = (r, t') \<Longrightarrow> links_ok t'"
  by (auto simp: QueryRow_tag_def links_ok_def logged_def split: option.splits list.splits)

lemma links_ok_insert_tag:
  "links_ok t \<Longrightarrow> Exec_insert_tag eng fl t tag = (r, t') \<Longrightarrow> links_ok t'"
  by (auto simp: Exec_insert_tag_def links_ok_def logged_def Let_def
        split: option.splits if_splits)

lemma set_insert_link: "set (insert_link x xs) = insert x (set xs)"
  by (induction xs) auto

lemma distinct_insert_link: "distinct (insert_link x xs) = (x \<notin> set xs \<and> distinct xs)"
  by (induction xs) (auto simp: set_insert_link)

lemma links_ok_insert_question_tag:
  "links_ok t \<Longrightarrow> Exec_insert_question_tag fl t i j = (r, t') \<Longrightarrow> links_ok t'"
  by (auto simp: Exec_insert_question_tag_def links_ok_def logged_def Let_def distinct_insert_link
        split: option.splits if_splits)

lemma links_ok_Commit:
  "links_ok t \<Longrightarrow> Commit fl t = (r, t') \<Longrightarrow> links_ok t'"
  by (auto simp: Commit_def links_ok_def logged_def Rollback_def split: option.splits)

lemma links_ok_link:
  assumes "links_ok t"
    and "(case Exec_insert_question_tag fl t i j of
            (Some e, t) \<Rightarrow> (Some (FailedToInsertQuestionTag e), Rollback t)
          | (None, t) \<Rightarrow> (None, t)) = (r, t')"
  shows "links_ok t'"
proof (cases "Exec_insert_question_tag fl t i j")
  case (Pair x u)
  from links_ok_insert_question_tag [OF assms(1) Pair] have "links_ok u" .
  with assms(2) show ?thesis
    by (cases x) (auto simp: Pair links_ok_Rollback)
qed

lemma links_ok_add_tag:
  assumes "links_ok t" "add_tag eng fl i t tag = (r, t')"
  shows "links_ok t'"
proof (cases "QueryRow_tag eng fl t tag")
  case (Pair r1 t1)
  from links_ok_QueryRow_tag [OF assms(1) Pair] have l1: "links_ok t1" .
  show ?thesis
  proof (cases r1)
    case (Found j)
    with assms(2) links_ok_link [OF l1, of fl i j r t'] show ?thesis
      by (simp add: add_tag_def Pair)
  next
    case (OtherErr e)
    with assms(2) l1 show ?thesis
      by (auto simp: add_tag_def Pair links_ok_Rollback)
  next
    case ErrNoRows
    show ?thesis
    proof (cases "Exec_insert_tag eng fl t1 tag")
      case p2: (Pair r2 t2)
      from links_ok_insert_tag [OF l1 p2] have l2: "links_ok t2" .
      show ?thesis
      proof (cases r2)
        case (Inl e)
        with assms(2) l2 show ?thesis
          by (auto simp: add_tag_def Pair ErrNoRows p2 links_ok_Rollback)
      next
        case (Inr result)
        show ?thesis
        proof (cases "LastInsertId fl CTagID t2 result")
          case p3: (Pair r3 t3)
          from links_ok_LastInsertId [OF l2 p3] have l3: "links_ok t3" .
          show ?thesis
          proof (cases r3)
            case e3: (Inl e)
            with assms(2) l3 show ?thesis
              by (auto simp: add_tag_def Pair ErrNoRows p2 Inr p3 links_ok_Rollback)
          next
            case i3: (Inr j)
            with assms(2) links_ok_link [OF l3, of fl i j r t'] show ?thesis
              by (simp add: add_tag_def Pair ErrNoRows p2 Inr p3)
          qed
        qed
      qed
    qed
  qed
qed

lemma links_ok_add_tags:
  "links_ok t \<Longrightarrow> add_tags eng fl i t tags = (r, t') \<Longrightarrow> links_ok t'"
proof (induction tags arbitrary: t)
  case Nil
  then show ?case by simp
next
  case (Cons tag tags)
  obtain x u where a: "add_tag eng fl i t tag = (x, u)" by (cases "add_tag eng fl i t tag")
  from links_ok_add_tag [OF Cons.prems(1) a] have u: "links_ok u" .
  show ?case
  proof (cases x)
    case None
    with Cons.prems(2) a have "add_tags eng fl i u tags = (r, t')" by simp
    from Cons.IH [OF u this] show ?thesis .
  next
    case (Some e)
    with Cons.prems(2) a u show ?thesis by simp
  qed
qed

section \<open>Claims\<close>

text \<open>
  C1 (ALL mode). In ALL mode a question should be returned exactly when it is linked to
  every tag of the list. The subquery keeps the questions whose number of distinct
  matched names equals the length of the list, and the list is passed on as it was
  received: on the rows of init.sql, with \<open>18+\<close> given twice, each question tagged
  \<open>18+\<close> has one distinct matched name against a length of two, so no question is
  returned, although question 1 is linked to every tag of the list; the same list
  without the repetition returns the three questions tagged \<open>18+\<close>. (With a
  language or a type the ALL mode fails in another way, see C7.)
\<close>

theorem all_mode_repeated_tag:
  "GetQuestions reliable seed [] [] [''18+'', ''18+''] (Some \<lparr>MatchAllTags = True\<rparr>) = Inr None \<and>
   tag_names seed 1 = [''18+''] \<and>
   GetQuestions reliable seed [] [] [''18+''] (Some \<lparr>MatchAllTags = True\<rparr>)
     = Inr (Some [q1, q2, q4])"
  by (simp add: GetQuestions_groups eval_defs seed_def reliable_def tag_names_def
        q1_def q2_def q4_def)

text \<open>
  C2 (full tag list). The Tags of a returned question should be all the tags linked to
  it. In ANY mode they are not: question 2 of init.sql is linked to \<open>18+\<close> and
  \<open>alcohol\<close>, and a search for \<open>alcohol\<close> returns it with \<open>alcohol\<close> alone; the
  same search in ALL mode returns both tags.
\<close>

theorem any_mode_drops_other_tags:
  "GetQuestions reliable seed [] [] [''alcohol''] (Some \<lparr>MatchAllTags = False\<rparr>)
     = Inr (Some [q2\<lparr>Tags := Some [''alcohol'']\<rparr>]) \<and>
   tag_names seed 2 = [''18+'', ''alcohol''] \<and>
   GetQuestions reliable seed [] [] [''alcohol''] (Some \<lparr>MatchAllTags = True\<rparr>)
     = Inr (Some [q2])"
  by (simp add: GetQuestions_groups eval_defs seed_def reliable_def q2_def tag_names_def)

text \<open>
  C3 (rollback). If AddQuestion returns an error, or if any call it made on the driver
  failed, then the three tables are as they were before the call, the failed call is
  the last call that was made and the only one that failed, and the error returned
  reports it. The AUTO\_INCREMENT counters are not rolled back.
\<close>

theorem AddQuestion_rolls_back:
  assumes "AddQuestion eng fl db q = (r, db', cs)"
    and "r \<noteq> None \<or> (\<exists>c m. (c, Failed m) \<in> set cs)"
  shows "questions_tbl db' = questions_tbl db \<and> tags_tbl db' = tags_tbl db \<and>
         question_tags_tbl db' = question_tags_tbl db \<and>
         (\<exists>pre c m. cs = pre @ [(c, Failed m)] \<and> clean pre \<and> r = Some (wrap c m))"
proof (cases r)
  case None
  with AddQuestion_outcome [of db eng fl q] assms(1) have "clean cs"
    by (simp add: outcome_ok_def)
  with assms(2) None show ?thesis by (auto dest: clean_no_failure)
next
  case (Some e)
  with AddQuestion_outcome [of db eng fl q] assms(1)
  have "same_tables db' db" "first_failure cs e"
    by (simp_all add: outcome_ok_def)
  with Some show ?thesis
    unfolding same_tables_def first_failure_def by blast
qed

theorem AddQuestion_rolls_back_witness:
  "AddQuestion default_engine link_fails seed new_question =
     (Some (FailedToInsertQuestionTag ''invalid connection''),
      seed\<lparr>questions_auto := 6, tags_auto := 5\<rparr>,
      [(CBegin, Ok), (CInsertQuestion, Ok), (CQuestionID, Ok), (CSelectTag ''newtag'', NoRows),
       (CInsertTag ''newtag'', Ok), (CTagID, Ok),
       (CInsertQuestionTag 5 4, Failed ''invalid connection'')]) \<and>
   questions_tbl (seed\<lparr>questions_auto := 6, tags_auto := 5\<rparr>) = questions_tbl seed \<and>
   tags_tbl (seed\<lparr>questions_auto := 6, tags_auto := 5\<rparr>) = tags_tbl seed \<and>
   question_tags_tbl (seed\<lparr>questions_auto := 6, tags_auto := 5\<rparr>) = question_tags_tbl seed"
proof -
  have r: "AddQuestion default_engine link_fails seed new_question =
     (Some (FailedToInsertQuestionTag ''invalid connection''),
      seed\<lparr>questions_auto := 6, tags_auto := 5\<rparr>,
      [(CBegin, Ok), (CInsertQuestion, Ok), (CQuestionID, Ok), (CSelectTag ''newtag'', NoRows),
       (CInsertTag ''newtag'', Ok), (CTagID, Ok),
       (CInsertQuestionTag 5 4, Failed ''invalid connection'')])"
    by (simp add: add_defs link_fails_def seed_def new_question_def)
  have f: "Some (FailedToInsertQuestionTag ''invalid connection'') \<noteq> None \<or>
      (\<exists>c m. (c, Failed m) \<in> set [(CBegin, Ok), (CInsertQuestion, Ok), (CQuestionID, Ok),
         (CSelectTag ''newtag'', NoRows), (CInsertTag ''newtag'', Ok), (CTagID, Ok),
         (CInsertQuestionTag 5 4, Failed ''invalid connection'')])"
    by simp
  from AddQuestion_rolls_back [OF r f] r show ?thesis by blast
qed

text \<open>
  C4 (ANY mode). With a tag list that is not empty and in ANY mode, every question of
  the result is linked to a tag whose name the engine holds equal to one of the
  requested names: the WHERE clause keeps a joined row only if its tag name is equal,
  under the collation of the column, to one of the arguments. The name need not be in
  the list as it is written: on the rows of init.sql a search for \<open>ALCOHOL\<close> returns
  question 2, whose tags are \<open>18+\<close> and \<open>alcohol\<close>.
\<close>

theorem any_mode_sound:
  assumes "tags \<noteq> []" and "\<not> matchAll config"
    and "GetQuestions e db language qType tags config = Inr qs"
    and "q \<in> set (elems qs)"
  shows "\<exists>tag \<in> set tags. \<exists>n \<in> set (tag_names db (ID q)).
           collate (settings e) n = collate (settings e) tag"
proof -
  from GetQuestions_mem [OF assms(3,4)]
  obtain g where g: "g \<in> set (result_groups e db language qType tags config)"
      "q = group_question (settings e) g"
    by blast
  let ?ok = "\<lambda>r. (language = [] \<or> collate (settings e) (q_language r) = collate (settings e) language) \<and>
                  (qType = [] \<or> collate (settings e) (q_type r) = collate (settings e) qType) \<and>
                  (tags = [] \<or>
                   (\<exists>n \<in> set tags. \<exists>m. t_name r = SStr m \<and>
                      collate (settings e) m = collate (settings e) n))"
  have "hd g \<in> set (filter ?ok (from_rows db))"
  proof -
    from assms(2) have "\<not> (tags \<noteq> [] \<and> matchAll config)" by simp
    from where_rows_plain [OF this] result_groups_hd [OF g(1)] show ?thesis by simp
  qed
  then have fr: "hd g \<in> set (from_rows db)" and ok: "?ok (hd g)" by simp_all
  from ok assms(1) obtain tag m where n: "tag \<in> set tags" "t_name (hd g) = SStr m"
      "collate (settings e) m = collate (settings e) tag"
    by blast
  from from_rows_tag_name [OF fr n(2)] have "m \<in> set (tag_names db (ID q))"
    by (simp add: g(2) group_question_def)
  with n(1,3) show ?thesis by blast
qed

theorem any_mode_sound_witness:
  "[''ALCOHOL''] \<noteq> [] \<and> \<not> matchAll (Some \<lparr>MatchAllTags = False\<rparr>) \<and>
   GetQuestions reliable seed [] [] [''ALCOHOL''] (Some \<lparr>MatchAllTags = False\<rparr>)
     = Inr (Some [q2\<lparr>Tags := Some [''alcohol'']\<rparr>]) \<and>
   q2\<lparr>Tags := Some [''alcohol'']\<rparr> \<in> set (elems (Some [q2\<lparr>Tags := Some [''alcohol'']\<rparr>])) \<and>
   (\<exists>tag \<in> set [''ALCOHOL'']. \<exists>n \<in> set (tag_names seed (ID (q2\<lparr>Tags := Some [''alcohol'']\<rparr>))).
      collate (settings reliable) n = collate (settings reliable) tag)"
proof -
  let ?q = "q2\<lparr>Tags := Some [''alcohol'']\<rparr>"
  have a: "[''ALCOHOL''] \<noteq> []" by simp
  have b: "\<not> matchAll (Some \<lparr>MatchAllTags = False\<rparr>)" by (simp add: matchAll_def)
  have c: "GetQuestions reliable seed [] [] [''ALCOHOL''] (Some \<lparr>MatchAllTags = False\<rparr>)
            = Inr (Some [?q])"
    by (simp add: GetQuestions_groups eval_defs seed_def reliable_def q2_def)
  have d: "?q \<in> set (elems (Some [?q]))" by (simp add: elems_def)
  from any_mode_sound [OF a b c d] a b c d show ?thesis by blast
qed

theorem any_mode_other_case_counterexample:
  "GetQuestions reliable seed [] [] [''ALCOHOL''] (Some \<lparr>MatchAllTags = False\<rparr>)
     = Inr (Some [q2\<lparr>Tags := Some [''alcohol'']\<rparr>]) \<and>
   tag_names seed 2 = [''18+'', ''alcohol''] \<and>
   ''ALCOHOL'' \<notin> set (tag_names seed 2)"
  by (simp add: GetQuestions_groups eval_defs seed_def reliable_def q2_def tag_names_def)

text \<open>
  C5 (all or nothing). GetQuestions should return the complete list or an error. A
  failed query and a row that cannot be scanned are reported as errors
  (\<open>query_fault_reported\<close>, \<open>scan_failure_reported\<close>). A failure while the rows are
  read is not: on the rows of init.sql, a connection that breaks after the first row
  makes GetQuestions return the first question alone, with no error.
\<close>

theorem broken_iteration_truncates:
  "GetQuestions reliable seed [] [] [] None = Inr (Some [q1, q2, q3, q4]) \<and>
   GetQuestions (reliable\<lparr>iter_fault := Some (1, ''invalid connection'')\<rparr>) seed [] [] [] None
     = Inr (Some [q1])"
  by (simp add: GetQuestions_groups eval_defs seed_def reliable_def q1_def q2_def q3_def q4_def)

text \<open>
  C6 (empty tag list). With an empty tag list GetQuestions sends the query without any
  tag filter, whatever the match mode, so the result is the same for every config; and
  when the driver does not fail, the questions returned are exactly those whose language
  and type the engine holds equal to the ones given, in ALL mode too.
\<close>

theorem empty_tag_list_is_no_filter:
  "build_query language qType [] config = query_without_tag_filter language qType \<and>
   GetQuestions e db language qType [] config = GetQuestions e db language qType [] None \<and>
   (query_fault e = None \<and> iter_fault e = None \<longrightarrow>
      (\<exists>qs. GetQuestions e db language qType [] config = Inr qs \<and>
            ID ` set (elems qs) =
            fst ` set (filter (passes (settings e) language qType) (questions_tbl db))))"
proof (intro conjI impI)
  show "build_query language qType [] config = query_without_tag_filter language qType"
    by (rule build_query_no_tags)
  show "GetQuestions e db language qType [] config = GetQuestions e db language qType [] None"
    by (simp add: GetQuestions_def build_query_no_tags)
next
  assume a: "query_fault e = None \<and> iter_fault e = None"
  let ?rows = "where_rows (settings e) db (stmt_of language qType [] config)
                 (snd (build_query language qType [] config))"
  let ?P = "passes (settings e) language qType"
  have rows: "?rows = filter (\<lambda>r. ?P (fst r)) (from_rows db)"
    by (simp add: where_rows_plain passes_def q_language_def q_type_def)
  have "q_id ` set ?rows = fst ` set (filter ?P (questions_tbl db))"
  proof (intro set_eqI iffI)
    fix i
    assume "i \<in> q_id ` set ?rows"
    then obtain r where "r \<in> set (from_rows db)" "?P (fst r)" "i = q_id r"
      unfolding rows by auto
    then show "i \<in> fst ` set (filter ?P (questions_tbl db))"
      using from_rows_question [of r db] by (auto simp: q_id_def)
  next
    fix i
    assume "i \<in> fst ` set (filter ?P (questions_tbl db))"
    then obtain q where q: "q \<in> set (questions_tbl db)" "?P q" "i = fst q"
      by auto
    from from_rows_covers [OF q(1)] obtain r where "r \<in> set (from_rows db)" "fst r = q"
      by blast
    with q show "i \<in> q_id ` set ?rows"
      unfolding rows by (auto simp: q_id_def intro!: image_eqI [where x = r])
  qed
  with GetQuestions_ids [of e db language qType "[]" config] a
  show "\<exists>qs. GetQuestions e db language qType [] config = Inr qs \<and>
            ID ` set (elems qs) = fst ` set (filter ?P (questions_tbl db))"
    by simp
qed

theorem empty_tag_list_is_no_filter_witness:
  "query_fault reliable = None \<and> iter_fault reliable = None \<and>
   GetQuestions reliable seed ''de'' [] [] (Some \<lparr>MatchAllTags = True\<rparr>) = Inr (Some [q3, q4]) \<and>
   GetQuestions reliable seed ''de'' [] [] None = Inr (Some [q3, q4]) \<and>
   ID ` set (elems (Some [q3, q4])) =
     fst ` set (filter (passes (settings reliable) ''de'' []) (questions_tbl seed))"
proof -
  have f: "query_fault reliable = None \<and> iter_fault reliable = None"
    by (simp add: reliable_def)
  have r: "GetQuestions reliable seed ''de'' [] [] None = Inr (Some [q3, q4])"
    by (simp add: GetQuestions_groups eval_defs seed_def reliable_def q3_def q4_def)
  note t = empty_tag_list_is_no_filter [of "''de''" "[]" "Some \<lparr>MatchAllTags = True\<rparr>" reliable seed]
  from t r have s: "GetQuestions reliable seed ''de'' [] [] (Some \<lparr>MatchAllTags = True\<rparr>)
      = Inr (Some [q3, q4])"
    by (simp only:)
  from t f obtain qs where qs: "GetQuestions reliable seed ''de'' [] [] (Some \<lparr>MatchAllTags = True\<rparr>) = Inr qs"
      "ID ` set (elems qs) =
         fst ` set (filter (passes (settings reliable) ''de'' []) (questions_tbl seed))"
    by blast
  from qs(1) s have "qs = Some [q3, q4]" by (simp only: sum.inject)
  with qs(2) f r s show ?thesis by (simp only: simp_thms)
qed

text \<open>
  C7 (placeholders and arguments). The text of the query depends only on which filters
  are present and on the number of tags (\<open>query_text_independent\<close>), but the
  arguments are not in the order of the placeholders. With a language and a tag in ALL
  mode the arguments are the language, the tag and the count, while the text has the
  placeholder of the tag list first, then the one of the count, then the one of the
  language: the engine looks for questions tagged \<open>en\<close> and finds none, whatever it
  makes of the other two comparisons. Without the language the same call returns the
  three questions tagged \<open>18+\<close>, two of them English.
\<close>

theorem all_mode_arguments_misbound:
  "snd (build_query ''en'' [] [''18+''] (Some \<lparr>MatchAllTags = True\<rparr>))
     = [SStr ''en'', SStr ''18+'', SInt 1] \<and>
   parse_select (fst (build_query ''en'' [] [''18+''] (Some \<lparr>MatchAllTags = True\<rparr>)))
     = Some \<lparr>matching_tags = Some 1, conditions = [LanguageEq]\<rparr> \<and>
   matching_ids (engine_ci co) seed [SStr ''en''] (SStr ''18+'') = [] \<and>
   GetQuestions \<lparr>settings = engine_ci co, query_fault = None, iter_fault = None\<rparr> seed
     ''en'' [] [''18+''] (Some \<lparr>MatchAllTags = True\<rparr>) = Inr None \<and>
   GetQuestions \<lparr>settings = engine_ci co, query_fault = None, iter_fault = None\<rparr> seed
     [] [] [''18+''] (Some \<lparr>MatchAllTags = True\<rparr>) = Inr (Some [q1, q2, q4])"
  by (simp add: GetQuestions_groups parse_select_build eval_defs seed_def q1_def q2_def q4_def)

text \<open>
  C8 (no duplicate links). If no pair occurs twice in \<open>question_tags\<close> before
  AddQuestion, none does afterwards, whatever the question and its tag list and however
  the call ends. A tag list that names a tag twice makes the second insert of the pair
  fail on the primary key, and the whole call is rolled back.
\<close>

theorem no_duplicate_links:
  assumes "distinct (question_tags_tbl db)"
    and "AddQuestion eng fl db q = (r, db', cs)"
  shows "distinct (question_tags_tbl db')"
proof (cases "Begin fl db")
  case (Inl a)
  with assms show ?thesis
    by (cases a) (simp add: AddQuestion_def)
next
  case (Inr t)
  with assms(1) have l0: "links_ok t"
    by (auto simp: Begin_def links_ok_def split: option.splits)
  obtain r1 t1 where p1: "Exec_insert_question fl t (Language q) (Type q) (Task q) = (r1, t1)"
    by (cases "Exec_insert_question fl t (Language q) (Type q) (Task q)")
  from links_ok_insert_question [OF l0 p1] have l1: "links_ok t1" .
  show ?thesis
  proof (cases r1)
    case e1: (Inl e)
    with assms(2) links_ok_Rollback [OF l1] show ?thesis
      by (auto simp: AddQuestion_def Inr p1 links_ok_def)
  next
    case i1: (Inr result)
    obtain r2 t2 where p2: "LastInsertId fl CQuestionID t1 result = (r2, t2)"
      by (cases "LastInsertId fl CQuestionID t1 result")
    from links_ok_LastInsertId [OF l1 p2] have l2: "links_ok t2" .
    show ?thesis
    proof (cases r2)
      case e2: (Inl e)
      with assms(2) links_ok_Rollback [OF l2] show ?thesis
        by (auto simp: AddQuestion_def Inr p1 i1 p2 links_ok_def)
    next
      case i2: (Inr questionID)
      obtain r3 t3 where p3: "add_tags eng fl questionID t2 (elems (Tags q)) = (r3, t3)"
        by (cases "add_tags eng fl questionID t2 (elems (Tags q))")
      from links_ok_add_tags [OF l2 p3] have l3: "links_ok t3" .
      show ?thesis
      proof (cases r3)
        case None
        obtain r4 t4 where p4: "Commit fl t3 = (r4, t4)" by (cases "Commit fl t3")
        from links_ok_Commit [OF l3 p4] have "links_ok t4" .
        with assms(2) show ?thesis
          by (auto simp: AddQuestion_def Inr p1 i1 p2 i2 p3 None p4 links_ok_def)
      next
        case (Some e)
        with assms(2) l3 show ?thesis
          by (auto simp: AddQuestion_def Inr p1 i1 p2 i2 p3 links_ok_def)
      qed
    qed
  qed
qed

theorem no_duplicate_links_witness:
  "distinct (question_tags_tbl seed) \<and>
   AddQuestion default_engine no_faults seed twice_tagged =
     (Some (FailedToInsertQuestionTag ''Duplicate entry for key PRIMARY''),
      seed\<lparr>questions_auto := 6, tags_auto := 5\<rparr>,
      [(CBegin, Ok), (CInsertQuestion, Ok), (CQuestionID, Ok), (CSelectTag ''party'', NoRows),
       (CInsertTag ''party'', Ok), (CTagID, Ok), (CInsertQuestionTag 5 4, Ok),
       (CSelectTag ''party'', Ok),
       (CInsertQuestionTag 5 4, Failed ''Duplicate entry for key PRIMARY'')]) \<and>
   distinct (question_tags_tbl (seed\<lparr>questions_auto := 6, tags_auto := 5\<rparr>))"
proof -
  have d: "distinct (question_tags_tbl seed)" by (simp add: seed_def)
  have r: "AddQuestion default_engine no_faults seed twice_tagged =
     (Some (FailedToInsertQuestionTag ''Duplicate entry for key PRIMARY''),
      seed\<lparr>questions_auto := 6, tags_auto := 5\<rparr>,
      [(CBegin, Ok), (CInsertQuestion, Ok), (CQuestionID, Ok), (CSelectTag ''party'', NoRows),
       (CInsertTag ''party'', Ok), (CTagID, Ok), (CInsertQuestionTag 5 4, Ok),
       (CSelectTag ''party'', Ok),
       (CInsertQuestionTag 5 4, Failed ''Duplicate entry for key PRIMARY'')])"
    by (simp add: add_defs no_faults_def seed_def twice_tagged_def)
  from no_duplicate_links [OF d r] d r show ?thesis by blast
qed



text \<open>
  C10 (commas). The tags of a question are decoded by splitting the concatenated column
  at each comma, so a linked tag whose name contains a comma is never among the
  returned tags (\<open>comma_name_not_returned\<close>). The returned tags should be the linked
  ones whenever no linked name contains a comma. In ANY mode they are not: on the rows
  of init.sql a search for \<open>18+\<close> returns question 2 with \<open>18+\<close> alone, although
  it is linked to \<open>18+\<close> and \<open>alcohol\<close> and neither name contains a comma.
\<close>

theorem any_mode_tags_without_comma:
  "GetQuestions reliable seed [] [] [''18+''] (Some \<lparr>MatchAllTags = False\<rparr>) =
     Inr (Some [q1, q2\<lparr>Tags := Some [''18+'']\<rparr>, q4]) \<and>
   tag_names seed 2 = [''18+'', ''alcohol''] \<and>
   \<not> has_comma ''18+'' \<and> \<not> has_comma ''alcohol'' \<and>
   set (elems (Tags (q2\<lparr>Tags := Some [''18+'']\<rparr>))) \<noteq> set (tag_names seed 2)"
  by (simp add: GetQuestions_groups eval_defs seed_def reliable_def q1_def q2_def q4_def
        tag_names_def has_comma_def elems_def)

end
